theory Spec2Isabelle
  imports Main "HOL-Library.Sublist"
begin

section \<open>The workflow package: data model\<close>

text \<open>
  The model follows \<^verbatim>\<open>pkg/workflow\<close>: the type declarations (\<^verbatim>\<open>Workflow\<close>,
  \<^verbatim>\<open>Step\<close>, \<^verbatim>\<open>StepResult\<close>, \<^verbatim>\<open>WorkflowResult\<close>) and the sequential engine
  (\<^verbatim>\<open>DefaultEngine.Execute\<close>, \<^verbatim>\<open>DefaultEngine.ExecuteStep\<close>).

  A Go map value may be \<^verbatim>\<open>nil\<close>; it is an optional partial function, \<open>None\<close> being
  \<^verbatim>\<open>nil\<close>. Ranging over a \<^verbatim>\<open>nil\<close> map visits nothing. A pointer that may be \<^verbatim>\<open>nil\<close>
  is an \<open>option\<close> as well. Where two Go structs share a field name the fields of
  \<^verbatim>\<open>ErrorHandler\<close>, \<^verbatim>\<open>Workflow\<close> and \<^verbatim>\<open>WorkflowResult\<close> carry the prefixes \<open>eh_\<close>,
  \<open>wf_\<close> and \<open>wr_\<close>; \<^verbatim>\<open>Step.If\<close> is \<open>If'\<close>.
\<close>

type_synonym 'v gomap = "(string \<rightharpoonup> 'v) option"

type_synonym StepType = string

record ErrorHandler =
  eh_Action :: string
  eh_Message :: string

record 'v Step =
  ID :: string
  Name :: string
  Type :: StepType
  Action :: string
  With :: "'v gomap"
  Env :: "string gomap"
  If' :: string
  DependsOn :: "string list"
  Timeout :: string
  Retries :: int
  OnError :: "ErrorHandler option"

record 'v Workflow =
  wf_Name :: string
  wf_Version :: string
  wf_Description :: string
  wf_Env :: "string gomap"
  wf_Steps :: "'v Step list"
  wf_OnError :: "ErrorHandler option"
  wf_Timeout :: string

datatype StepStatus =
  StatusPending | StatusRunning | StatusCompleted | StatusFailed | StatusSkipped

text \<open>
  Instants and durations are counted in nanoseconds. \<^verbatim>\<open>time.Time.Sub\<close> saturates at the
  ends of the 64-bit \<^verbatim>\<open>Duration\<close> range. \<open>zero_Time\<close> is the zero value of
  \<^verbatim>\<open>time.Time\<close> (January 1 of year 1, UTC) as an offset from the Unix epoch.
\<close>

type_synonym time = int
type_synonym duration = int

definition zero_Time :: time where
  "zero_Time = - 62135596800 * 1000000000"

definition Sub :: "time \<Rightarrow> time \<Rightarrow> duration" where
  "Sub t u = max (- (2 ^ 63)) (min (2 ^ 63 - 1) (t - u))"

text \<open>
  The errors the engine builds: \<^verbatim>\<open>fmt.Errorf("invalid timeout: %w", err)\<close> around the
  error of \<^verbatim>\<open>time.ParseDuration\<close>, \<^verbatim>\<open>fmt.Errorf("unknown action: %s", step.Action)\<close>,
  and the error an action handler returned, passed on as it is. An error of a handler
  or of the parser is known by its message.
\<close>

datatype error =
  InvalidTimeout string
  | UnknownAction string
  | ActionError string

record 'v StepResult =
  StepID :: string
  Status :: StepStatus
  Output :: "'v gomap"
  Error :: "error option"
  StartTime :: time
  EndTime :: time
  Duration :: duration

record 'v WorkflowResult =
  WorkflowName :: string
  wr_Status :: StepStatus
  wr_Steps :: "'v StepResult option list"
  wr_StartTime :: time
  wr_EndTime :: time
  wr_Duration :: duration
  wr_Error :: "error option"

section \<open>Contexts, handlers and the world outside the engine\<close>

text \<open>
  A \<^verbatim>\<open>context.Context\<close> is the caller's context, wrapped by \<^verbatim>\<open>context.WithTimeout\<close> once
  for each timeout the engine applies. The deferred \<^verbatim>\<open>cancel()\<close> releases the timer when
  the function returns and changes no result.

  An \<^verbatim>\<open>ActionHandler\<close> is a Go closure: it may read and change anything outside the
  engine (a counter, the network, the clock). That outside is the world \<open>'w\<close>, passed
  through every call. A handler returns an output map and an error. A registered
  handler is a function that returns: a \<^verbatim>\<open>nil\<close> function value or a handler that
  panics is not modelled, and neither is a \<^verbatim>\<open>nil\<close> step or workflow pointer.
\<close>

datatype 'c Context = Caller 'c | WithTimeout "'c Context" duration

type_synonym ('c, 'v, 'w) ActionHandler =
  "'c Context \<Rightarrow> (string \<rightharpoonup> 'v) \<Rightarrow> 'w \<Rightarrow> ('v gomap \<times> string option) \<times> 'w"

record ('c, 'v, 'w) DefaultEngine =
  actions :: "string \<rightharpoonup> ('c, 'v, 'w) ActionHandler"

text \<open>
  The two functions of Go's standard library the engine calls are parameters:
  \<^verbatim>\<open>time.Now\<close>, which reads the clock of the world, and \<^verbatim>\<open>time.ParseDuration\<close>, which
  returns a duration or an error.
\<close>

record 'w stdlib =
  Now :: "'w \<Rightarrow> time \<times> 'w"
  ParseDuration :: "string \<Rightarrow> string + duration"

text \<open>
  The state of a run is the world together with the list of handler invocations made so
  far (action name and the inputs passed), the counterpart of an invocation counter on
  a stub handler.
\<close>

record ('v, 'w) state =
  world :: 'w
  calls :: "(string \<times> (string \<rightharpoonup> 'v)) list"

definition now :: "'w stdlib \<Rightarrow> ('v, 'w) state \<Rightarrow> time \<times> ('v, 'w) state" where
  "now lib st = (case Now lib (world st) of (t, w') \<Rightarrow> (t, st\<lparr>world := w'\<rparr>))"

definition invoke ::
  "string \<Rightarrow> ('c, 'v, 'w) ActionHandler \<Rightarrow> 'c Context \<Rightarrow> (string \<rightharpoonup> 'v) \<Rightarrow> ('v, 'w) state
    \<Rightarrow> ('v gomap \<times> string option) \<times> ('v, 'w) state" where
  "invoke name handler ctx inputs st =
     (case handler ctx inputs (world st) of
        (r, w') \<Rightarrow> (r, st\<lparr>world := w', calls := calls st @ [(name, inputs)]\<rparr>))"

section \<open>ExecuteStep\<close>

text \<open>
  \<^verbatim>\<open>for k, v := range src { dst[k] = v }\<close>: every entry of \<open>src\<close> is stored in \<open>dst\<close>,
  replacing the entry \<open>dst\<close> had under that key.
\<close>

definition range_assign :: "'v gomap \<Rightarrow> (string \<rightharpoonup> 'v) \<Rightarrow> (string \<rightharpoonup> 'v)" where
  "range_assign src dst = (case src of None \<Rightarrow> dst | Some m \<Rightarrow> dst ++ m)"

text \<open>
  The two lines that precede every \<^verbatim>\<open>return\<close> of \<^verbatim>\<open>ExecuteStep\<close>:
  \<^verbatim>\<open>result.EndTime = time.Now()\<close> and
  \<^verbatim>\<open>result.Duration = result.EndTime.Sub(result.StartTime)\<close>.
\<close>

definition stamp :: "'w stdlib \<Rightarrow> 'v StepResult \<Rightarrow> ('v, 'w) state \<Rightarrow> 'v StepResult \<times> ('v, 'w) state" where
  "stamp lib result st =
     (case now lib st of
        (t, st') \<Rightarrow> (result\<lparr>EndTime := t, Duration := Sub t (StartTime result)\<rparr>, st'))"

text \<open>A return with \<^verbatim>\<open>result.Status = StatusFailed\<close> and \<^verbatim>\<open>result.Error = err\<close>.\<close>

definition fail_step ::
  "'w stdlib \<Rightarrow> 'v StepResult \<Rightarrow> error \<Rightarrow> ('v, 'w) state
    \<Rightarrow> ('v StepResult option \<times> error option) \<times> ('v, 'w) state" where
  "fail_step lib result err st =
     (case stamp lib (result\<lparr>Status := StatusFailed, Error := Some err\<rparr>) st of
        (result', st') \<Rightarrow> ((Some result', Some err), st'))"

text \<open>
  The body of \<^verbatim>\<open>ExecuteStep\<close> from \<^verbatim>\<open>// Merge inputs with step.With\<close> on: the inputs
  are merged into a fresh map, the handler is looked up under \<^verbatim>\<open>step.Action\<close>, and it
  is called once.
\<close>

definition run_action ::
  "'w stdlib \<Rightarrow> ('c, 'v, 'w) DefaultEngine \<Rightarrow> 'c Context \<Rightarrow> 'v Step \<Rightarrow> 'v gomap
    \<Rightarrow> 'v StepResult \<Rightarrow> ('v, 'w) state
    \<Rightarrow> ('v StepResult option \<times> error option) \<times> ('v, 'w) state" where
  "run_action lib e ctx step inputs result st =
     (let allInputs = range_assign (With step) (range_assign inputs Map.empty)
      in case actions e (Action step) of
           None \<Rightarrow> fail_step lib result (UnknownAction (Action step)) st
         | Some handler \<Rightarrow>
             (case invoke (Action step) handler ctx allInputs st of
                ((output, Some err), st') \<Rightarrow> fail_step lib result (ActionError err) st'
              | ((output, None), st') \<Rightarrow>
                  (case stamp lib (result\<lparr>Status := StatusCompleted, Output := output\<rparr>) st' of
                     (result', st'') \<Rightarrow> ((Some result', None), st''))))"

definition ExecuteStep ::
  "'w stdlib \<Rightarrow> ('c, 'v, 'w) DefaultEngine \<Rightarrow> 'c Context \<Rightarrow> 'v Step \<Rightarrow> 'v gomap
    \<Rightarrow> ('v, 'w) state \<Rightarrow> ('v StepResult option \<times> error option) \<times> ('v, 'w) state" where
  "ExecuteStep lib e ctx step inputs st =
     (case now lib st of
        (start, st1) \<Rightarrow>
          (let result = \<lparr>StepID = ID step, Status = StatusRunning, Output = None,
                          Error = None, StartTime = start, EndTime = zero_Time, Duration = 0\<rparr>
           in if Timeout step \<noteq> []
              then (case ParseDuration lib (Timeout step) of
                      Inl err \<Rightarrow> fail_step lib result (InvalidTimeout err) st1
                    | Inr d \<Rightarrow> run_action lib e (WithTimeout ctx d) step inputs result st1)
              else run_action lib e ctx step inputs result st1))"

section \<open>Execute\<close>

text \<open>
  The two lines before every \<^verbatim>\<open>return result, ...\<close> of \<^verbatim>\<open>Execute\<close>, after the status
  and the error have been set.
\<close>

definition wr_stamp ::
  "'w stdlib \<Rightarrow> 'v WorkflowResult \<Rightarrow> ('v, 'w) state \<Rightarrow> 'v WorkflowResult \<times> ('v, 'w) state" where
  "wr_stamp lib result st =
     (case now lib st of
        (t, st') \<Rightarrow> (result\<lparr>wr_EndTime := t, wr_Duration := Sub t (wr_StartTime result)\<rparr>, st'))"

text \<open>
  The loop \<^verbatim>\<open>for _, step := range w.Steps\<close> with the return that follows it. Every step
  is run with \<^verbatim>\<open>nil\<close> inputs; its result is appended; the first error ends the loop.
\<close>

fun Execute_loop ::
  "'w stdlib \<Rightarrow> ('c, 'v, 'w) DefaultEngine \<Rightarrow> 'c Context \<Rightarrow> 'v WorkflowResult
    \<Rightarrow> 'v Step list \<Rightarrow> ('v, 'w) state
    \<Rightarrow> ('v WorkflowResult option \<times> error option) \<times> ('v, 'w) state" where
  "Execute_loop lib e ctx result [] st =
     (case wr_stamp lib (result\<lparr>wr_Status := StatusCompleted\<rparr>) st of
        (result', st') \<Rightarrow> ((Some result', None), st'))"
| "Execute_loop lib e ctx result (step # rest) st =
     (case ExecuteStep lib e ctx step None st of
        ((stepResult, err), st1) \<Rightarrow>
          (let result1 = result\<lparr>wr_Steps := wr_Steps result @ [stepResult]\<rparr>
           in case err of
                Some er \<Rightarrow>
                  (case wr_stamp lib (result1\<lparr>wr_Status := StatusFailed, wr_Error := Some er\<rparr>) st1 of
                     (result', st') \<Rightarrow> ((Some result', Some er), st'))
              | None \<Rightarrow> Execute_loop lib e ctx result1 rest st1))"

definition Execute ::
  "'w stdlib \<Rightarrow> ('c, 'v, 'w) DefaultEngine \<Rightarrow> 'c Context \<Rightarrow> 'v Workflow \<Rightarrow> ('v, 'w) state
    \<Rightarrow> ('v WorkflowResult option \<times> error option) \<times> ('v, 'w) state" where
  "Execute lib e ctx w st =
     (case now lib st of
        (start, st1) \<Rightarrow>
          (let result = \<lparr>WorkflowName = wf_Name w, wr_Status = StatusRunning, wr_Steps = [],
                          wr_StartTime = start, wr_EndTime = zero_Time, wr_Duration = 0,
                          wr_Error = None\<rparr>
           in if wf_Timeout w \<noteq> []
              then (case ParseDuration lib (wf_Timeout w) of
                      Inl err \<Rightarrow> ((None, Some (InvalidTimeout err)), st1)
                    | Inr d \<Rightarrow> Execute_loop lib e (WithTimeout ctx d) result (wf_Steps w) st1)
              else Execute_loop lib e ctx result (wf_Steps w) st1))"

section \<open>What the guards of the engine let through\<close>

text \<open>
  The guard on a timeout string, of a step or of a workflow: an empty string is no
  timeout, any other string must parse. \<open>step_ctx\<close> is the context the step's handler
  runs under once the guard is passed, and \<open>merged_inputs\<close> the map \<^verbatim>\<open>allInputs\<close>.
\<close>

definition valid_timeout :: "'w stdlib \<Rightarrow> string \<Rightarrow> bool" where
  "valid_timeout lib s = (s = [] \<or> \<not> isl (ParseDuration lib s))"

definition step_ctx :: "'w stdlib \<Rightarrow> 'c Context \<Rightarrow> string \<Rightarrow> 'c Context" where
  "step_ctx lib ctx s =
     (if s \<noteq> [] then (case ParseDuration lib s of Inl err \<Rightarrow> ctx | Inr d \<Rightarrow> WithTimeout ctx d)
      else ctx)"

definition merged_inputs :: "'v Step \<Rightarrow> 'v gomap \<Rightarrow> (string \<rightharpoonup> 'v)" where
  "merged_inputs step inputs = range_assign (With step) (range_assign inputs Map.empty)"

text \<open>Reading a Go map that may be \<^verbatim>\<open>nil\<close>: a \<^verbatim>\<open>nil\<close> map has no entry.\<close>

definition lookup :: "'v gomap \<Rightarrow> string \<Rightarrow> 'v option" where
  "lookup m k = (case m of None \<Rightarrow> None | Some f \<Rightarrow> f k)"

text \<open>
  A step reaches its handler when its timeout passes the guard and its action is
  registered. \<open>reported\<close> counts the step results of a report; a \<^verbatim>\<open>nil\<close> report
  holds none.
\<close>

definition reaches_handler :: "'w stdlib \<Rightarrow> ('c, 'v, 'w) DefaultEngine \<Rightarrow> 'v Step \<Rightarrow> bool" where
  "reaches_handler lib e s = (valid_timeout lib (Timeout s) \<and> actions e (Action s) \<noteq> None)"

definition reported :: "'v WorkflowResult option \<Rightarrow> nat" where
  "reported res = (case res of None \<Rightarrow> 0 | Some r \<Rightarrow> length (wr_Steps r))"

section \<open>Reports without their timestamps\<close>

definition erase_step_times :: "'v StepResult \<Rightarrow> 'v StepResult" where
  "erase_step_times r = r\<lparr>StartTime := 0, EndTime := 0, Duration := 0\<rparr>"

definition erase_times :: "'v WorkflowResult \<Rightarrow> 'v WorkflowResult" where
  "erase_times r =
     r\<lparr>wr_Steps := map (map_option erase_step_times) (wr_Steps r),
       wr_StartTime := 0, wr_EndTime := 0, wr_Duration := 0\<rparr>"

text \<open>
  A handler is deterministic when what it returns depends on its inputs alone, not on
  the context it runs under nor on the world.
\<close>

definition deterministic :: "('c, 'v, 'w) DefaultEngine \<Rightarrow> bool" where
  "deterministic e =
     (\<forall>name h. actions e name = Some h \<longrightarrow>
        (\<forall>ctx ctx' inputs w w'. fst (h ctx inputs w) = fst (h ctx' inputs w')))"

section \<open>A concrete engine for the examples\<close>

text \<open>
  The world of the examples is a clock and a counter of the attempts the handler
  \<open>flaky\<close> has seen. The handlers \<open>echo\<close> and \<open>noop\<close> are those of the package's tests;
  \<open>flaky\<close> fails twice and succeeds from then on. \<open>sample_ParseDuration\<close> stands for
  \<^verbatim>\<open>time.ParseDuration\<close> on the strings the examples use: \<^verbatim>\<open>"1s"\<close> is one second, and
  \<^verbatim>\<open>"abc"\<close>, which starts with neither a digit nor a point, is rejected.
\<close>

datatype val = VNil | VBool bool | VStr string

record sample_world =
  clock :: nat
  attempts :: nat

definition sample_Now :: "sample_world \<Rightarrow> time \<times> sample_world" where
  "sample_Now w = (int (clock w), w\<lparr>clock := Suc (clock w)\<rparr>)"

definition sample_ParseDuration :: "string \<Rightarrow> string + duration" where
  "sample_ParseDuration s =
     (if s = ''1s'' then Inr 1000000000
      else Inl (''time: invalid duration '' @ [CHR 0x22] @ s @ [CHR 0x22]))"

definition sample_lib :: "sample_world stdlib" where
  "sample_lib = \<lparr>Now = sample_Now, ParseDuration = sample_ParseDuration\<rparr>"

definition echo :: "(unit, val, sample_world) ActionHandler" where
  "echo ctx inputs w =
     ((Some [''echo'' \<mapsto> (case inputs ''message'' of None \<Rightarrow> VNil | Some v \<Rightarrow> v)], None), w)"

definition noop :: "(unit, val, sample_world) ActionHandler" where
  "noop ctx inputs w = ((Some [''done'' \<mapsto> VBool True], None), w)"

definition flaky :: "(unit, val, sample_world) ActionHandler" where
  "flaky ctx inputs w =
     (if attempts w < 2 then ((None, Some ''transient failure''), w\<lparr>attempts := Suc (attempts w)\<rparr>)
      else ((Some [''done'' \<mapsto> VBool True], None), w\<lparr>attempts := Suc (attempts w)\<rparr>))"

definition sample_engine :: "(unit, val, sample_world) DefaultEngine" where
  "sample_engine = \<lparr>actions = [''echo'' \<mapsto> echo, ''noop'' \<mapsto> noop, ''flaky'' \<mapsto> flaky]\<rparr>"

definition pure_engine :: "(unit, val, sample_world) DefaultEngine" where
  "pure_engine = \<lparr>actions = [''echo'' \<mapsto> echo, ''noop'' \<mapsto> noop]\<rparr>"

definition sample_step :: "string \<Rightarrow> string \<Rightarrow> val Step" where
  "sample_step i a =
     \<lparr>ID = i, Name = i, Type = ''task'', Action = a, With = None, Env = None, If' = [],
      DependsOn = [], Timeout = [], Retries = 0, OnError = None\<rparr>"

definition sample_workflow :: "val Step list \<Rightarrow> val Workflow" where
  "sample_workflow ss =
     \<lparr>wf_Name = ''test'', wf_Version = [], wf_Description = [], wf_Env = None,
      wf_Steps = ss, wf_OnError = None, wf_Timeout = []\<rparr>"

definition st0 :: "(val, sample_world) state" where
  "st0 = \<lparr>world = \<lparr>clock = 0, attempts = 0\<rparr>, calls = []\<rparr>"

text \<open>
  Two workflows whose \<^verbatim>\<open>dependsOn\<close> relation is a cycle: A needs B and B needs A; and
  A needs C, B needs A, C needs B, the action of B being unregistered.
\<close>

definition cyclic_workflow :: "val Workflow" where
  "cyclic_workflow =
     sample_workflow [(sample_step ''A'' ''noop'')\<lparr>DependsOn := [''B'']\<rparr>,
                      (sample_step ''B'' ''echo'')\<lparr>DependsOn := [''A'']\<rparr>]"

definition cyclic_failing_workflow :: "val Workflow" where
  "cyclic_failing_workflow =
     sample_workflow [(sample_step ''A'' ''echo'')\<lparr>DependsOn := [''C'']\<rparr>,
                      (sample_step ''B'' ''missing'')\<lparr>DependsOn := [''A'']\<rparr>,
                      (sample_step ''C'' ''noop'')\<lparr>DependsOn := [''B'']\<rparr>]"

text \<open>Another clock, for a second run: it starts later and ticks in larger steps.\<close>

definition late_Now :: "sample_world \<Rightarrow> time \<times> sample_world" where
  "late_Now w = (1000 + 7 * int (clock w), w\<lparr>clock := Suc (clock w)\<rparr>)"

definition late_lib :: "sample_world stdlib" where
  "late_lib = \<lparr>Now = late_Now, ParseDuration = sample_ParseDuration\<rparr>"

definition st1 :: "(val, sample_world) state" where
  "st1 = \<lparr>world = \<lparr>clock = 50, attempts = 3\<rparr>, calls = []\<rparr>"

lemmas engine_defs =
  ExecuteStep_def run_action_def fail_step_def stamp_def wr_stamp_def now_def invoke_def
  range_assign_def Execute_def

lemmas sample_defs =
  sample_lib_def sample_Now_def sample_ParseDuration_def sample_engine_def pure_engine_def
  sample_step_def sample_workflow_def st0_def echo_def noop_def flaky_def
  late_Now_def late_lib_def st1_def

section \<open>Unfolding the engine\<close>

lemma now_calls: "calls (snd (now lib st)) = calls st"
  by (simp add: now_def split: prod.splits)

lemma stamp_eq:
  "stamp lib r st =
     (r\<lparr>EndTime := fst (now lib st), Duration := Sub (fst (now lib st)) (StartTime r)\<rparr>,
      snd (now lib st))"
  by (simp add: stamp_def split: prod.splits)

lemma fail_step_eq:
  "fail_step lib r err st =
     ((Some (r\<lparr>Status := StatusFailed, Error := Some err, EndTime := fst (now lib st),
               Duration := Sub (fst (now lib st)) (StartTime r)\<rparr>), Some err),
      snd (now lib st))"
  by (simp add: fail_step_def stamp_eq)

lemma ExecuteStep_valid:
  "valid_timeout lib (Timeout step) \<Longrightarrow>
   ExecuteStep lib e ctx step inputs st =
     run_action lib e (step_ctx lib ctx (Timeout step)) step inputs
       \<lparr>StepID = ID step, Status = StatusRunning, Output = None, Error = None,
        StartTime = fst (now lib st), EndTime = zero_Time, Duration = 0\<rparr>
       (snd (now lib st))"
  by (auto simp: ExecuteStep_def valid_timeout_def step_ctx_def split: prod.splits sum.splits)

lemma ExecuteStep_bad_timeout:
  assumes "Timeout step \<noteq> []" and "ParseDuration lib (Timeout step) = Inl perr"
  shows "\<exists>r. ExecuteStep lib e ctx step inputs st =
            ((Some r, Some (InvalidTimeout perr)), snd (now lib (snd (now lib st))))
          \<and> StepID r = ID step \<and> Status r = StatusFailed \<and> Output r = None
          \<and> Error r = Some (InvalidTimeout perr)"
  using assms by (simp add: ExecuteStep_def fail_step_eq split: prod.splits)

lemma ExecuteStep_unknown_action:
  assumes "valid_timeout lib (Timeout step)" and "actions e (Action step) = None"
  shows "\<exists>r. ExecuteStep lib e ctx step inputs st =
            ((Some r, Some (UnknownAction (Action step))), snd (now lib (snd (now lib st))))
          \<and> StepID r = ID step \<and> Status r = StatusFailed \<and> Output r = None
          \<and> Error r = Some (UnknownAction (Action step))"
  using assms by (simp add: ExecuteStep_valid run_action_def fail_step_eq)

lemma ExecuteStep_invoked:
  assumes "valid_timeout lib (Timeout step)" and "actions e (Action step) = Some h"
    and "h (step_ctx lib ctx (Timeout step)) (merged_inputs step inputs) (world (snd (now lib st)))
           = ((out, err), w')"
  shows "\<exists>r st'. ExecuteStep lib e ctx step inputs st = ((Some r, map_option ActionError err), st')
          \<and> StepID r = ID step
          \<and> Status r = (if err = None then StatusCompleted else StatusFailed)
          \<and> Output r = (if err = None then out else None)
          \<and> Error r = map_option ActionError err
          \<and> calls st' = calls st @ [(Action step, merged_inputs step inputs)]
          \<and> world st' = snd (Now lib w')"
proof (cases err)
  case None
  with assms show ?thesis
    by (simp add: ExecuteStep_valid run_action_def invoke_def stamp_eq now_calls
                  merged_inputs_def [symmetric] Let_def)
       (simp add: now_def split: prod.splits)
next
  case (Some msg)
  with assms show ?thesis
    by (simp add: ExecuteStep_valid run_action_def invoke_def fail_step_eq now_calls
                  merged_inputs_def [symmetric] Let_def)
       (simp add: now_def split: prod.splits)
qed

lemma timeout_cases:
  obtains (bad) perr where "Timeout step \<noteq> []" "ParseDuration lib (Timeout step) = Inl perr"
  | (ok) "valid_timeout lib (Timeout step)"
  by (cases "ParseDuration lib (Timeout step)") (auto simp: valid_timeout_def)

section \<open>The result of a single step\<close>

text \<open>
  Claim C10. For every step and inputs, \<^verbatim>\<open>ExecuteStep\<close> returns a non-nil StepResult
  whose StepID is the step's ID and whose Status is Completed or Failed; the returned
  error is non-nil if and only if the Status is Failed, and the Output field is set
  only when the Status is Completed.
\<close>
theorem ExecuteStep_result_shape:
  "\<exists>r. fst (fst (ExecuteStep lib e ctx step inputs st)) = Some r
     \<and> StepID r = ID step
     \<and> (Status r = StatusCompleted \<or> Status r = StatusFailed)
     \<and> ((snd (fst (ExecuteStep lib e ctx step inputs st)) \<noteq> None) = (Status r = StatusFailed))
     \<and> (Output r \<noteq> None \<longrightarrow> Status r = StatusCompleted)"
proof (cases rule: timeout_cases [of step lib])
  case (bad perr)
  from ExecuteStep_bad_timeout [OF this, of e ctx inputs st] show ?thesis by auto
next
  case ok
  show ?thesis
  proof (cases "actions e (Action step)")
    case None
    from ExecuteStep_unknown_action [OF ok None, of ctx inputs st] show ?thesis by auto
  next
    case (Some h)
    obtain out err w' where
      "h (step_ctx lib ctx (Timeout step)) (merged_inputs step inputs) (world (snd (now lib st)))
         = ((out, err), w')"
      by (metis surj_pair)
    from ExecuteStep_invoked [OF ok Some this] show ?thesis by auto
  qed
qed

theorem ExecuteStep_result_shape_witness:
  "\<exists>r. fst (fst (ExecuteStep sample_lib sample_engine (Caller ()) (sample_step ''s1'' ''noop'') None st0)) = Some r
     \<and> Output r \<noteq> None \<and> Status r = StatusCompleted
     \<and> snd (fst (ExecuteStep sample_lib sample_engine (Caller ()) (sample_step ''s1'' ''noop'') None st0)) = None"
  using ExecuteStep_result_shape [of sample_lib sample_engine "Caller ()" "sample_step ''s1'' ''noop''" None st0]
  by (simp add: engine_defs sample_defs)

text \<open>
  Claim C8. For every step and every caller-supplied input mapping, the inputs passed
  to the action handler are the caller-supplied inputs merged with \<^verbatim>\<open>step.With\<close>:
  a key of \<^verbatim>\<open>step.With\<close> carries the value \<^verbatim>\<open>step.With\<close> gives it, also when the
  caller supplied that key, and every other key carries the caller's value. The handler
  is reached when the step's timeout passes its guard and the action is registered.
\<close>
theorem ExecuteStep_merges_inputs:
  assumes "valid_timeout lib (Timeout step)" and "actions e (Action step) = Some h"
  shows "\<exists>m. calls (snd (ExecuteStep lib e ctx step inputs st)) = calls st @ [(Action step, m)]
          \<and> (\<forall>k v. lookup (With step) k = Some v \<longrightarrow> m k = Some v)
          \<and> (\<forall>k. lookup (With step) k = None \<longrightarrow> m k = lookup inputs k)"
proof -
  obtain out err w' where
    "h (step_ctx lib ctx (Timeout step)) (merged_inputs step inputs) (world (snd (now lib st)))
       = ((out, err), w')"
    by (metis surj_pair)
  from ExecuteStep_invoked [OF assms this]
  have "calls (snd (ExecuteStep lib e ctx step inputs st))
          = calls st @ [(Action step, merged_inputs step inputs)]"
    by auto
  moreover have "\<forall>k v. lookup (With step) k = Some v \<longrightarrow> merged_inputs step inputs k = Some v"
    by (auto simp: merged_inputs_def range_assign_def lookup_def split: option.splits)
  moreover have "\<forall>k. lookup (With step) k = None \<longrightarrow> merged_inputs step inputs k = lookup inputs k"
    by (auto simp: merged_inputs_def range_assign_def lookup_def map_add_def split: option.splits)
  ultimately show ?thesis by blast
qed

theorem ExecuteStep_merges_inputs_witness:
  "valid_timeout sample_lib (Timeout ((sample_step ''s1'' ''echo'')\<lparr>With := Some [''message'' \<mapsto> VStr ''hello'']\<rparr>))
   \<and> actions sample_engine (Action ((sample_step ''s1'' ''echo'')\<lparr>With := Some [''message'' \<mapsto> VStr ''hello'']\<rparr>)) = Some echo
   \<and> (\<exists>m. calls (snd (ExecuteStep sample_lib sample_engine (Caller ())
                ((sample_step ''s1'' ''echo'')\<lparr>With := Some [''message'' \<mapsto> VStr ''hello'']\<rparr>)
                (Some [''message'' \<mapsto> VStr ''caller'', ''other'' \<mapsto> VStr ''x'']) st0))
            = [(''echo'', m)]
          \<and> m ''message'' = Some (VStr ''hello'') \<and> m ''other'' = Some (VStr ''x''))"
proof -
  let ?s = "(sample_step ''s1'' ''echo'')\<lparr>With := Some [''message'' \<mapsto> VStr ''hello'']\<rparr>"
  let ?i = "Some [''message'' \<mapsto> VStr ''caller'', ''other'' \<mapsto> VStr ''x'']"
  have v: "valid_timeout sample_lib (Timeout ?s)"
    by (simp add: valid_timeout_def sample_defs)
  have a: "actions sample_engine (Action ?s) = Some echo"
    by (simp add: sample_defs)
  from ExecuteStep_merges_inputs [OF v a, of "Caller ()" ?i st0]
  obtain m where c: "calls (snd (ExecuteStep sample_lib sample_engine (Caller ()) ?s ?i st0))
                       = calls st0 @ [(Action ?s, m)]"
    and w: "\<forall>k v. lookup (With ?s) k = Some v \<longrightarrow> m k = Some v"
    and i: "\<forall>k. lookup (With ?s) k = None \<longrightarrow> m k = lookup ?i k"
    by blast
  have "lookup (With ?s) ''message'' = Some (VStr ''hello'')"
    by (simp add: lookup_def sample_defs)
  with w have 1: "m ''message'' = Some (VStr ''hello'')" by blast
  have "lookup (With ?s) ''other'' = None"
    by (simp add: lookup_def sample_defs)
  with i have "m ''other'' = lookup ?i ''other''" by blast
  then have 2: "m ''other'' = Some (VStr ''x'')" by (simp add: lookup_def)
  from c have "calls (snd (ExecuteStep sample_lib sample_engine (Caller ()) ?s ?i st0)) = [(''echo'', m)]"
    by (simp add: sample_defs)
  with v a 1 2 show ?thesis by blast
qed

section \<open>Unfolding Execute\<close>

lemma ExecuteStep_outcome:
  "\<exists>r st'. ExecuteStep lib e ctx step inputs st = ((Some r, Error r), st')
     \<and> StepID r = ID step
     \<and> (Error r = None \<and> Status r = StatusCompleted
          \<or> Error r \<noteq> None \<and> Status r = StatusFailed \<and> Output r = None)"
proof (cases rule: timeout_cases [of step lib])
  case (bad perr)
  from ExecuteStep_bad_timeout [OF this, of e ctx inputs st] show ?thesis by auto
next
  case ok
  show ?thesis
  proof (cases "actions e (Action step)")
    case None
    from ExecuteStep_unknown_action [OF ok None, of ctx inputs st] show ?thesis by auto
  next
    case (Some h)
    obtain out err w' where
      "h (step_ctx lib ctx (Timeout step)) (merged_inputs step inputs) (world (snd (now lib st)))
         = ((out, err), w')"
      by (metis surj_pair)
    from ExecuteStep_invoked [OF ok Some this] show ?thesis by (cases err) auto
  qed
qed

lemma wr_stamp_eq:
  "wr_stamp lib r st =
     (r\<lparr>wr_EndTime := fst (now lib st), wr_Duration := Sub (fst (now lib st)) (wr_StartTime r)\<rparr>,
      snd (now lib st))"
  by (simp add: wr_stamp_def split: prod.splits)

lemma Execute_loop_Nil:
  "Execute_loop lib e ctx result [] st =
     ((Some (result\<lparr>wr_Status := StatusCompleted, wr_EndTime := fst (now lib st),
                    wr_Duration := Sub (fst (now lib st)) (wr_StartTime result)\<rparr>), None),
      snd (now lib st))"
  by (simp add: wr_stamp_eq)

lemma Execute_loop_Cons_ok:
  "ExecuteStep lib e ctx step None st = ((sr, None), st1) \<Longrightarrow>
   Execute_loop lib e ctx result (step # rest) st =
     Execute_loop lib e ctx (result\<lparr>wr_Steps := wr_Steps result @ [sr]\<rparr>) rest st1"
  by simp

lemma Execute_loop_Cons_fail:
  "ExecuteStep lib e ctx step None st = ((sr, Some er), st1) \<Longrightarrow>
   Execute_loop lib e ctx result (step # rest) st =
     ((Some (result\<lparr>wr_Steps := wr_Steps result @ [sr], wr_Status := StatusFailed,
                    wr_Error := Some er, wr_EndTime := fst (now lib st1),
                    wr_Duration := Sub (fst (now lib st1)) (wr_StartTime result)\<rparr>), Some er),
      snd (now lib st1))"
  by (simp add: wr_stamp_eq)

lemma Execute_loop_map:
  assumes "\<And>s st. ExecuteStep lib e ctx (g s) None st = ExecuteStep lib e ctx s None st"
  shows "Execute_loop lib e ctx result (map g steps) st = Execute_loop lib e ctx result steps st"
  by (induction steps arbitrary: result st)
     (auto simp: assms Let_def split: prod.splits option.splits)

lemma Execute_eq:
  "valid_timeout lib (wf_Timeout w) \<Longrightarrow>
   Execute lib e ctx w st =
     Execute_loop lib e (step_ctx lib ctx (wf_Timeout w))
       \<lparr>WorkflowName = wf_Name w, wr_Status = StatusRunning, wr_Steps = [],
        wr_StartTime = fst (now lib st), wr_EndTime = zero_Time, wr_Duration = 0, wr_Error = None\<rparr>
       (wf_Steps w) (snd (now lib st))"
  by (auto simp: Execute_def valid_timeout_def step_ctx_def split: prod.splits sum.splits)

lemma Execute_bad_timeout:
  "wf_Timeout w \<noteq> [] \<Longrightarrow> ParseDuration lib (wf_Timeout w) = Inl perr \<Longrightarrow>
   Execute lib e ctx w st = ((None, Some (InvalidTimeout perr)), snd (now lib st))"
  by (simp add: Execute_def split: prod.splits)

lemma Execute_loop_shape:
  assumes "wr_Error result = None"
  shows "\<exists>r new st'. Execute_loop lib e ctx result steps st = ((Some r, wr_Error r), st')
     \<and> wr_Steps r = wr_Steps result @ new \<and> WorkflowName r = WorkflowName result
     \<and> length new \<le> length steps
     \<and> (\<forall>i<length new. \<exists>sr. new ! i = Some sr \<and> StepID sr = ID (steps ! i)
            \<and> (if Suc i = length new \<and> wr_Status r = StatusFailed
                then Status sr = StatusFailed \<and> Error sr = wr_Error r \<and> Error sr \<noteq> None
                else Status sr = StatusCompleted \<and> Error sr = None))
     \<and> (wr_Status r = StatusCompleted \<and> wr_Error r = None \<and> length new = length steps
          \<or> wr_Status r = StatusFailed \<and> wr_Error r \<noteq> None \<and> new \<noteq> [])"
  using assms
proof (induction steps arbitrary: result st)
  case Nil
  then show ?case by (simp add: wr_stamp_eq)
next
  case (Cons step rest)
  obtain sr st1 where
    step: "ExecuteStep lib e ctx step None st = ((Some sr, Error sr), st1)"
    and id: "StepID sr = ID step"
    and out: "Error sr = None \<and> Status sr = StatusCompleted
              \<or> Error sr \<noteq> None \<and> Status sr = StatusFailed \<and> Output sr = None"
    using ExecuteStep_outcome [of lib e ctx step None st] by blast
  show ?case
  proof (cases "Error sr")
    case None
    let ?result1 = "result\<lparr>wr_Steps := wr_Steps result @ [Some sr]\<rparr>"
    have loop: "Execute_loop lib e ctx result (step # rest) st
                  = Execute_loop lib e ctx ?result1 rest st1"
      using step None by (simp add: Execute_loop_Cons_ok)
    have "wr_Error ?result1 = None" using Cons.prems by simp
    from Cons.IH [OF this, of st1]
    obtain r new st' where
      run: "Execute_loop lib e ctx ?result1 rest st1 = ((Some r, wr_Error r), st')"
      and steps: "wr_Steps r = wr_Steps ?result1 @ new"
      and name: "WorkflowName r = WorkflowName ?result1"
      and len: "length new \<le> length rest"
      and each: "\<forall>i<length new. \<exists>sr. new ! i = Some sr \<and> StepID sr = ID (rest ! i)
            \<and> (if Suc i = length new \<and> wr_Status r = StatusFailed
                then Status sr = StatusFailed \<and> Error sr = wr_Error r \<and> Error sr \<noteq> None
                else Status sr = StatusCompleted \<and> Error sr = None)"
      and fin: "wr_Status r = StatusCompleted \<and> wr_Error r = None \<and> length new = length rest
          \<or> wr_Status r = StatusFailed \<and> wr_Error r \<noteq> None \<and> new \<noteq> []"
      by blast
    let ?new = "Some sr # new"
    have 1: "wr_Steps r = wr_Steps result @ ?new" using steps by simp
    have 2: "WorkflowName r = WorkflowName result" using name by simp
    have 3: "length ?new \<le> length (step # rest)" using len by simp
    have 4: "\<exists>sr'. ?new ! i = Some sr' \<and> StepID sr' = ID ((step # rest) ! i)
            \<and> (if Suc i = length ?new \<and> wr_Status r = StatusFailed
                then Status sr' = StatusFailed \<and> Error sr' = wr_Error r \<and> Error sr' \<noteq> None
                else Status sr' = StatusCompleted \<and> Error sr' = None)"
      if "i < length ?new" for i
    proof (cases i)
      case 0
      have "\<not> (Suc 0 = length ?new \<and> wr_Status r = StatusFailed)"
        using fin by auto
      with 0 id out None show ?thesis by simp
    next
      case (Suc j)
      with that have "j < length new" by simp
      with each Suc show ?thesis by simp
    qed
    have 5: "wr_Status r = StatusCompleted \<and> wr_Error r = None \<and> length ?new = length (step # rest)
          \<or> wr_Status r = StatusFailed \<and> wr_Error r \<noteq> None \<and> ?new \<noteq> []"
      using fin by auto
    have run': "Execute_loop lib e ctx result (step # rest) st = ((Some r, wr_Error r), st')"
      using loop run by simp
    have each': "\<forall>i<length ?new. \<exists>sr'. ?new ! i = Some sr' \<and> StepID sr' = ID ((step # rest) ! i)
            \<and> (if Suc i = length ?new \<and> wr_Status r = StatusFailed
                then Status sr' = StatusFailed \<and> Error sr' = wr_Error r \<and> Error sr' \<noteq> None
                else Status sr' = StatusCompleted \<and> Error sr' = None)"
      using 4 by blast
    from run' 1 2 3 each' 5 show ?thesis
      apply -
      apply (rule exI [of _ r], rule exI [of _ "?new"], rule exI [of _ st'])
      apply (intro conjI; assumption)
      done
  next
    case (Some er)
    let ?r = "result\<lparr>wr_Steps := wr_Steps result @ [Some sr], wr_Status := StatusFailed,
                    wr_Error := Some er, wr_EndTime := fst (now lib st1),
                    wr_Duration := Sub (fst (now lib st1)) (wr_StartTime result)\<rparr>"
    have "Execute_loop lib e ctx result (step # rest) st = ((Some ?r, wr_Error ?r), snd (now lib st1))"
      using step Some by (simp add: wr_stamp_eq)
    moreover have "wr_Steps ?r = wr_Steps result @ [Some sr]" by simp
    moreover have "WorkflowName ?r = WorkflowName result" by simp
    moreover have "length [Some sr] \<le> length (step # rest)" by simp
    moreover have "\<forall>i<length [Some sr]. \<exists>sr'. [Some sr] ! i = Some sr' \<and> StepID sr' = ID ((step # rest) ! i)
            \<and> (if Suc i = length [Some sr] \<and> wr_Status ?r = StatusFailed
                then Status sr' = StatusFailed \<and> Error sr' = wr_Error ?r \<and> Error sr' \<noteq> None
                else Status sr' = StatusCompleted \<and> Error sr' = None)"
      using id out Some by simp
    moreover have "wr_Status ?r = StatusCompleted \<and> wr_Error ?r = None
            \<and> length [Some sr] = length (step # rest)
          \<or> wr_Status ?r = StatusFailed \<and> wr_Error ?r \<noteq> None \<and> [Some sr] \<noteq> []" by simp
    ultimately show ?thesis
      apply -
      apply (rule exI [of _ "?r"], rule exI [of _ "[Some sr]"], rule exI [of _ "snd (now lib st1)"])
      apply (intro conjI; assumption)
      done
  qed
qed

lemma run_action_same_fields:
  assumes "Action s' = Action s" "With s' = With s"
  shows "run_action lib e ctx s' inputs result st = run_action lib e ctx s inputs result st"
  unfolding run_action_def assms ..

lemma ExecuteStep_same_fields:
  assumes "ID s' = ID s" "Action s' = Action s" "With s' = With s" "Timeout s' = Timeout s"
  shows "ExecuteStep lib e ctx s' inputs st = ExecuteStep lib e ctx s inputs st"
  unfolding ExecuteStep_def assms(1,4) run_action_same_fields [OF assms(2,3)] ..

section \<open>Steps whose action is not registered\<close>

text \<open>
  Claim C5, as amended. For every step whose action name does not resolve in the
  action registry, \<^verbatim>\<open>ExecuteStep\<close> returns a Failed StepResult, the returned error being
  the one stored in the result, and invokes no handler, so nothing is retried. The
  error is the unknown-action error when the step's timeout is empty or parses; when
  the timeout string does not parse, the step has failed with the invalid-timeout
  error before the registry is consulted.
\<close>

theorem ExecuteStep_unknown_action_fails:
  assumes "actions e (Action step) = None"
  shows "\<exists>r. fst (fst (ExecuteStep lib e ctx step inputs st)) = Some r
           \<and> Status r = StatusFailed
           \<and> Error r = snd (fst (ExecuteStep lib e ctx step inputs st))
           \<and> calls (snd (ExecuteStep lib e ctx step inputs st)) = calls st
           \<and> (valid_timeout lib (Timeout step) \<longrightarrow>
                 snd (fst (ExecuteStep lib e ctx step inputs st)) = Some (UnknownAction (Action step)))
           \<and> (\<forall>perr. Timeout step \<noteq> [] \<and> ParseDuration lib (Timeout step) = Inl perr \<longrightarrow>
                 snd (fst (ExecuteStep lib e ctx step inputs st)) = Some (InvalidTimeout perr))"
proof (cases rule: timeout_cases [of step lib])
  case (bad perr)
  then have "\<not> valid_timeout lib (Timeout step)" by (simp add: valid_timeout_def)
  with bad ExecuteStep_bad_timeout [OF bad, of e ctx inputs st] show ?thesis
    by (auto simp: now_calls)
next
  case ok
  then have "\<And>perr. \<not> (Timeout step \<noteq> [] \<and> ParseDuration lib (Timeout step) = Inl perr)"
    by (auto simp: valid_timeout_def)
  with ok ExecuteStep_unknown_action [OF ok assms, of ctx inputs st] show ?thesis
    by (auto simp: now_calls)
qed

theorem ExecuteStep_unknown_action_fails_witness:
  "actions sample_engine (Action (sample_step ''s1'' ''missing'')) = None
   \<and> valid_timeout sample_lib (Timeout (sample_step ''s1'' ''missing''))
   \<and> snd (fst (ExecuteStep sample_lib sample_engine (Caller ()) (sample_step ''s1'' ''missing'') None st0))
       = Some (UnknownAction ''missing'')
   \<and> actions sample_engine (Action ((sample_step ''s1'' ''missing'')\<lparr>Timeout := ''abc''\<rparr>)) = None
   \<and> Timeout ((sample_step ''s1'' ''missing'')\<lparr>Timeout := ''abc''\<rparr>) \<noteq> []
   \<and> ParseDuration sample_lib (Timeout ((sample_step ''s1'' ''missing'')\<lparr>Timeout := ''abc''\<rparr>))
       = Inl (''time: invalid duration '' @ [CHR 0x22] @ ''abc'' @ [CHR 0x22])
   \<and> snd (fst (ExecuteStep sample_lib sample_engine (Caller ())
                 ((sample_step ''s1'' ''missing'')\<lparr>Timeout := ''abc''\<rparr>) None st0))
       = Some (InvalidTimeout (''time: invalid duration '' @ [CHR 0x22] @ ''abc'' @ [CHR 0x22]))"
proof -
  have a1: "actions sample_engine (Action (sample_step ''s1'' ''missing'')) = None"
    by (simp add: sample_defs)
  have v1: "valid_timeout sample_lib (Timeout (sample_step ''s1'' ''missing''))"
    by (simp add: valid_timeout_def sample_defs)
  have a2: "actions sample_engine (Action ((sample_step ''s1'' ''missing'')\<lparr>Timeout := ''abc''\<rparr>)) = None"
    by (simp add: sample_defs)
  have t2: "Timeout ((sample_step ''s1'' ''missing'')\<lparr>Timeout := ''abc''\<rparr>) \<noteq> []"
    by (simp add: sample_defs)
  have p2: "ParseDuration sample_lib (Timeout ((sample_step ''s1'' ''missing'')\<lparr>Timeout := ''abc''\<rparr>))
       = Inl (''time: invalid duration '' @ [CHR 0x22] @ ''abc'' @ [CHR 0x22])"
    by (simp add: sample_defs)
  from ExecuteStep_unknown_action_fails [OF a1, of sample_lib "Caller ()" None st0] v1
  have r1: "snd (fst (ExecuteStep sample_lib sample_engine (Caller ()) (sample_step ''s1'' ''missing'') None st0))
       = Some (UnknownAction ''missing'')"
    by (auto simp: sample_step_def)
  from ExecuteStep_unknown_action_fails [OF a2, of sample_lib "Caller ()" None st0] t2 p2
  have r2: "snd (fst (ExecuteStep sample_lib sample_engine (Caller ())
                 ((sample_step ''s1'' ''missing'')\<lparr>Timeout := ''abc''\<rparr>) None st0))
       = Some (InvalidTimeout (''time: invalid duration '' @ [CHR 0x22] @ ''abc'' @ [CHR 0x22]))"
    by blast
  from a1 v1 r1 a2 t2 p2 r2 show ?thesis by blast
qed

text \<open>
  Claim C5 as stated fails on a step with an unregistered action and the timeout
  \<^verbatim>\<open>"abc"\<close>: the timeout is parsed first, and the error is the invalid-timeout error,
  not the unknown-action error.
\<close>

theorem ExecuteStep_unknown_action_counterexample:
  "actions sample_engine (Action ((sample_step ''s1'' ''missing'')\<lparr>Timeout := ''abc''\<rparr>)) = None
   \<and> snd (fst (ExecuteStep sample_lib sample_engine (Caller ())
                 ((sample_step ''s1'' ''missing'')\<lparr>Timeout := ''abc''\<rparr>) None st0))
       = Some (InvalidTimeout (''time: invalid duration '' @ [CHR 0x22] @ ''abc'' @ [CHR 0x22]))
   \<and> snd (fst (ExecuteStep sample_lib sample_engine (Caller ())
                 ((sample_step ''s1'' ''missing'')\<lparr>Timeout := ''abc''\<rparr>) None st0))
       \<noteq> Some (UnknownAction ''missing'')"
  by (simp add: engine_defs sample_defs)


section \<open>Fields the engine never reads\<close>

lemma Execute_map_steps:
  assumes "\<And>s ctx st. ExecuteStep lib e ctx (g s) None st = ExecuteStep lib e ctx s None st"
  shows "Execute lib e ctx (w\<lparr>wf_Steps := map g (wf_Steps w)\<rparr>) st = Execute lib e ctx w st"
proof -
  have "Execute_loop lib e c result (wf_Steps (w\<lparr>wf_Steps := map g (wf_Steps w)\<rparr>)) s
          = Execute_loop lib e c result (wf_Steps w) s" for c result s
    using assms by (simp add: Execute_loop_map)
  moreover have "wf_Timeout (w\<lparr>wf_Steps := map g (wf_Steps w)\<rparr>) = wf_Timeout w"
    and "wf_Name (w\<lparr>wf_Steps := map g (wf_Steps w)\<rparr>) = wf_Name w"
    by simp_all
  ultimately show ?thesis unfolding Execute_def by (simp only:)
qed

text \<open>
  Claim C3, as amended. The engine does not evaluate \<^verbatim>\<open>if\<close>: whatever the \<^verbatim>\<open>if\<close>
  string of a step (absent, empty, or an expression that a condition evaluator would
  find false), \<^verbatim>\<open>ExecuteStep\<close> and \<^verbatim>\<open>Execute\<close> return the same results and invoke the
  same handlers; the terminal status of a step is Completed or Failed, never Skipped;
  and every step, in particular one with an absent or empty \<^verbatim>\<open>if\<close>, is eligible to
  execute: its handler is invoked once its timeout passes the guard and its action is
  registered.
\<close>

theorem ExecuteStep_ignores_condition:
  "ExecuteStep lib e ctx (step\<lparr>If' := c\<rparr>) inputs st = ExecuteStep lib e ctx step inputs st
   \<and> Execute lib e ctx (w\<lparr>wf_Steps := map (\<lambda>s. s\<lparr>If' := f s\<rparr>) (wf_Steps w)\<rparr>) st
       = Execute lib e ctx w st
   \<and> (\<exists>r. fst (fst (ExecuteStep lib e ctx step inputs st)) = Some r
          \<and> (Status r = StatusCompleted \<or> Status r = StatusFailed) \<and> Status r \<noteq> StatusSkipped)
   \<and> (valid_timeout lib (Timeout step) \<and> actions e (Action step) \<noteq> None \<longrightarrow>
         calls (snd (ExecuteStep lib e ctx step inputs st))
           = calls st @ [(Action step, merged_inputs step inputs)])"
proof (intro conjI impI)
  show "ExecuteStep lib e ctx (step\<lparr>If' := c\<rparr>) inputs st = ExecuteStep lib e ctx step inputs st"
    by (rule ExecuteStep_same_fields) simp_all
  show "Execute lib e ctx (w\<lparr>wf_Steps := map (\<lambda>s. s\<lparr>If' := f s\<rparr>) (wf_Steps w)\<rparr>) st
          = Execute lib e ctx w st"
    by (rule Execute_map_steps) (rule ExecuteStep_same_fields, simp_all)
  show "\<exists>r. fst (fst (ExecuteStep lib e ctx step inputs st)) = Some r
          \<and> (Status r = StatusCompleted \<or> Status r = StatusFailed) \<and> Status r \<noteq> StatusSkipped"
    using ExecuteStep_outcome [of lib e ctx step inputs st] by auto
next
  assume a: "valid_timeout lib (Timeout step) \<and> actions e (Action step) \<noteq> None"
  then obtain h where h: "actions e (Action step) = Some h" by blast
  obtain out err w' where
    "h (step_ctx lib ctx (Timeout step)) (merged_inputs step inputs) (world (snd (now lib st)))
       = ((out, err), w')"
    by (metis surj_pair)
  from ExecuteStep_invoked [OF conjunct1 [OF a] h this]
  show "calls (snd (ExecuteStep lib e ctx step inputs st))
          = calls st @ [(Action step, merged_inputs step inputs)]"
    by auto
qed

theorem ExecuteStep_ignores_condition_witness:
  "valid_timeout sample_lib (Timeout ((sample_step ''s1'' ''noop'')\<lparr>If' := ''false''\<rparr>))
   \<and> actions sample_engine (Action ((sample_step ''s1'' ''noop'')\<lparr>If' := ''false''\<rparr>)) \<noteq> None
   \<and> map fst (calls (snd (ExecuteStep sample_lib sample_engine (Caller ())
                 ((sample_step ''s1'' ''noop'')\<lparr>If' := ''false''\<rparr>) None st0))) = [''noop'']"
proof -
  have v: "valid_timeout sample_lib (Timeout ((sample_step ''s1'' ''noop'')\<lparr>If' := ''false''\<rparr>))
   \<and> actions sample_engine (Action ((sample_step ''s1'' ''noop'')\<lparr>If' := ''false''\<rparr>)) \<noteq> None"
    by (simp add: valid_timeout_def sample_defs)
  with ExecuteStep_ignores_condition
         [where lib = sample_lib and e = sample_engine and ctx = "Caller ()"
            and step = "(sample_step ''s1'' ''noop'')\<lparr>If' := ''false''\<rparr>"
            and inputs = None and st = st0]
  have "calls (snd (ExecuteStep sample_lib sample_engine (Caller ())
                 ((sample_step ''s1'' ''noop'')\<lparr>If' := ''false''\<rparr>) None st0))
          = calls st0 @ [(Action ((sample_step ''s1'' ''noop'')\<lparr>If' := ''false''\<rparr>),
                          merged_inputs ((sample_step ''s1'' ''noop'')\<lparr>If' := ''false''\<rparr>) None)]"
    by blast
  then have "map fst (calls (snd (ExecuteStep sample_lib sample_engine (Caller ())
                 ((sample_step ''s1'' ''noop'')\<lparr>If' := ''false''\<rparr>) None st0))) = [''noop'']"
    by (simp add: sample_step_def st0_def)
  with v show ?thesis by blast
qed

text \<open>
  Claim C3 as stated fails on a step whose \<^verbatim>\<open>if\<close> is the literal \<^verbatim>\<open>false\<close>: run alone or
  as the only step of a workflow, it ends Completed and its handler is invoked once.
\<close>

theorem skipped_when_condition_false_counterexample:
  "If' ((sample_step ''s1'' ''noop'')\<lparr>If' := ''false''\<rparr>) = ''false''
   \<and> map_option (\<lambda>r. map (map_option Status) (wr_Steps r))
        (fst (fst (Execute sample_lib sample_engine (Caller ())
                     (sample_workflow [(sample_step ''s1'' ''noop'')\<lparr>If' := ''false''\<rparr>]) st0)))
       = Some [Some StatusCompleted]
   \<and> map fst (calls (snd (Execute sample_lib sample_engine (Caller ())
                     (sample_workflow [(sample_step ''s1'' ''noop'')\<lparr>If' := ''false''\<rparr>]) st0)))
       = [''noop'']
   \<and> map_option Status
        (fst (fst (ExecuteStep sample_lib sample_engine (Caller ())
                     ((sample_step ''s1'' ''noop'')\<lparr>If' := ''false''\<rparr>) None st0)))
       = Some StatusCompleted
   \<and> map fst (calls (snd (ExecuteStep sample_lib sample_engine (Caller ())
                     ((sample_step ''s1'' ''noop'')\<lparr>If' := ''false''\<rparr>) None st0)))
       = [''noop'']"
  by (simp add: engine_defs sample_defs)

text \<open>
  The handlers a run invokes, and the errors it can return. The log of invocations
  grows by one entry for each step that reaches its handler, in the order the loop
  visits the steps.
\<close>

lemma ExecuteStep_calls:
  "calls (snd (ExecuteStep lib e ctx s inputs st))
     = calls st @ (if reaches_handler lib e s then [(Action s, merged_inputs s inputs)] else [])"
proof (cases rule: timeout_cases [of s lib])
  case (bad perr)
  then have "\<not> reaches_handler lib e s"
    by (simp add: reaches_handler_def valid_timeout_def)
  moreover from ExecuteStep_bad_timeout [OF bad, of e ctx inputs st]
  have "calls (snd (ExecuteStep lib e ctx s inputs st)) = calls st"
    by (auto simp: now_calls)
  ultimately show ?thesis by simp
next
  case ok
  show ?thesis
  proof (cases "actions e (Action s)")
    case None
    then have "\<not> reaches_handler lib e s" by (simp add: reaches_handler_def)
    moreover from ExecuteStep_unknown_action [OF ok None, of ctx inputs st]
    have "calls (snd (ExecuteStep lib e ctx s inputs st)) = calls st"
      by (auto simp: now_calls)
    ultimately show ?thesis by simp
  next
    case (Some h)
    with ok have "reaches_handler lib e s" by (simp add: reaches_handler_def)
    moreover obtain out err w' where
      "h (step_ctx lib ctx (Timeout s)) (merged_inputs s inputs) (world (snd (now lib st)))
         = ((out, err), w')"
      by (metis surj_pair)
    from ExecuteStep_invoked [OF ok Some this]
    have "calls (snd (ExecuteStep lib e ctx s inputs st))
            = calls st @ [(Action s, merged_inputs s inputs)]"
      by auto
    ultimately show ?thesis by simp
  qed
qed

lemma ExecuteStep_error_kind:
  assumes "snd (fst (ExecuteStep lib e ctx s inputs st)) = Some er"
  shows "(\<exists>perr. er = InvalidTimeout perr \<and> Timeout s \<noteq> [] \<and> ParseDuration lib (Timeout s) = Inl perr)
         \<or> (er = UnknownAction (Action s) \<and> actions e (Action s) = None)
         \<or> (\<exists>msg. er = ActionError msg)"
proof (cases rule: timeout_cases [of s lib])
  case (bad perr)
  from ExecuteStep_bad_timeout [OF bad, of e ctx inputs st] assms
  have "er = InvalidTimeout perr" by auto
  with bad show ?thesis by blast
next
  case ok
  show ?thesis
  proof (cases "actions e (Action s)")
    case None
    from ExecuteStep_unknown_action [OF ok None, of ctx inputs st] assms
    have "er = UnknownAction (Action s)" by auto
    with None show ?thesis by blast
  next
    case (Some h)
    obtain out err w' where
      "h (step_ctx lib ctx (Timeout s)) (merged_inputs s inputs) (world (snd (now lib st)))
         = ((out, err), w')"
      by (metis surj_pair)
    from ExecuteStep_invoked [OF ok Some this] assms
    have "Some er = map_option ActionError err" by auto
    then have "\<exists>msg. er = ActionError msg" by (cases err) auto
    then show ?thesis by blast
  qed
qed

lemma Execute_loop_calls:
  "\<exists>r. fst (fst (Execute_loop lib e ctx result steps st)) = Some r
       \<and> length (wr_Steps result) \<le> length (wr_Steps r)
       \<and> calls (snd (Execute_loop lib e ctx result steps st))
           = calls st @ map (\<lambda>s. (Action s, merged_inputs s None))
                            (filter (reaches_handler lib e)
                               (take (length (wr_Steps r) - length (wr_Steps result)) steps))"
proof (induction steps arbitrary: result st)
  case Nil
  show ?case by (simp add: wr_stamp_eq now_calls)
next
  case (Cons step rest)
  obtain sr s1 where a: "ExecuteStep lib e ctx step None st = ((Some sr, Error sr), s1)"
    using ExecuteStep_outcome [of lib e ctx step None st] by blast
  from ExecuteStep_calls [of lib e ctx step None st] a
  have c1: "calls s1 = calls st @ (if reaches_handler lib e step
                                     then [(Action step, merged_inputs step None)] else [])"
    by simp
  show ?case
  proof (cases "Error sr")
    case None
    let ?r1 = "result\<lparr>wr_Steps := wr_Steps result @ [Some sr]\<rparr>"
    have l: "Execute_loop lib e ctx result (step # rest) st = Execute_loop lib e ctx ?r1 rest s1"
      using a None by simp
    from Cons.IH [of ?r1 s1]
    obtain r where r: "fst (fst (Execute_loop lib e ctx ?r1 rest s1)) = Some r"
      and len: "length (wr_Steps ?r1) \<le> length (wr_Steps r)"
      and c: "calls (snd (Execute_loop lib e ctx ?r1 rest s1))
           = calls s1 @ map (\<lambda>s. (Action s, merged_inputs s None))
                            (filter (reaches_handler lib e)
                               (take (length (wr_Steps r) - length (wr_Steps ?r1)) rest))"
      by (elim exE conjE)
    from len have len': "Suc (length (wr_Steps result)) \<le> length (wr_Steps r)" by simp
    then have k: "length (wr_Steps r) - length (wr_Steps result)
                    = Suc (length (wr_Steps r) - length (wr_Steps ?r1))"
      by simp
    have 1: "fst (fst (Execute_loop lib e ctx result (step # rest) st)) = Some r"
      unfolding l by (rule r)
    have 2: "length (wr_Steps result) \<le> length (wr_Steps r)" using len' by simp
    have 3: "calls (snd (Execute_loop lib e ctx result (step # rest) st))
           = calls st @ map (\<lambda>s. (Action s, merged_inputs s None))
                            (filter (reaches_handler lib e)
                               (take (length (wr_Steps r) - length (wr_Steps result)) (step # rest)))"
      unfolding l c c1 k by simp
    from 1 2 3 show ?thesis
      apply -
      apply (rule exI [of _ r])
      apply (intro conjI; assumption)
      done
  next
    case (Some er)
    let ?r = "result\<lparr>wr_Steps := wr_Steps result @ [Some sr], wr_Status := StatusFailed,
                    wr_Error := Some er, wr_EndTime := fst (now lib s1),
                    wr_Duration := Sub (fst (now lib s1)) (wr_StartTime result)\<rparr>"
    have l: "Execute_loop lib e ctx result (step # rest) st = ((Some ?r, Some er), snd (now lib s1))"
      using a Some by (simp add: wr_stamp_eq)
    have 1: "fst (fst (Execute_loop lib e ctx result (step # rest) st)) = Some ?r"
      unfolding l by simp
    have 2: "length (wr_Steps result) \<le> length (wr_Steps ?r)" by simp
    have 3: "calls (snd (Execute_loop lib e ctx result (step # rest) st))
           = calls st @ map (\<lambda>s. (Action s, merged_inputs s None))
                            (filter (reaches_handler lib e)
                               (take (length (wr_Steps ?r) - length (wr_Steps result)) (step # rest)))"
      unfolding l by (simp add: now_calls c1)
    from 1 2 3 show ?thesis
      apply -
      apply (rule exI [of _ "?r"])
      apply (intro conjI; assumption)
      done
  qed
qed

lemma Execute_loop_error:
  assumes "snd (fst (Execute_loop lib e ctx result steps st)) = Some er"
  shows "\<exists>s\<in>set steps. \<exists>st0. snd (fst (ExecuteStep lib e ctx s None st0)) = Some er"
  using assms
proof (induction steps arbitrary: result st)
  case Nil
  then show ?case by (simp add: wr_stamp_eq)
next
  case (Cons step rest)
  obtain sr s1 where a: "ExecuteStep lib e ctx step None st = ((Some sr, Error sr), s1)"
    using ExecuteStep_outcome [of lib e ctx step None st] by blast
  show ?case
  proof (cases "Error sr")
    case None
    let ?r1 = "result\<lparr>wr_Steps := wr_Steps result @ [Some sr]\<rparr>"
    have l: "Execute_loop lib e ctx result (step # rest) st = Execute_loop lib e ctx ?r1 rest s1"
      using a None by simp
    from Cons.prems have "snd (fst (Execute_loop lib e ctx ?r1 rest s1)) = Some er"
      unfolding l .
    from Cons.IH [OF this] show ?thesis by auto
  next
    case (Some er')
    have l: "snd (fst (Execute_loop lib e ctx result (step # rest) st)) = Some er'"
      using a Some by (simp add: wr_stamp_eq)
    with Cons.prems have "er' = er" by simp
    with a Some have "snd (fst (ExecuteStep lib e ctx step None st)) = Some er" by simp
    then show ?thesis by auto
  qed
qed

lemma Execute_calls:
  "calls (snd (Execute lib e ctx w st))
     = calls st @ map (\<lambda>s. (Action s, merged_inputs s None))
                      (filter (reaches_handler lib e)
                         (take (reported (fst (fst (Execute lib e ctx w st)))) (wf_Steps w)))"
proof (cases "valid_timeout lib (wf_Timeout w)")
  case True
  show ?thesis
    unfolding Execute_eq [OF True]
    using Execute_loop_calls [of lib e "step_ctx lib ctx (wf_Timeout w)"
            "\<lparr>WorkflowName = wf_Name w, wr_Status = StatusRunning, wr_Steps = [],
              wr_StartTime = fst (now lib st), wr_EndTime = zero_Time, wr_Duration = 0,
              wr_Error = None\<rparr>" "wf_Steps w" "snd (now lib st)"]
    by (clarsimp simp: reported_def now_calls)
next
  case False
  then obtain perr where bad: "wf_Timeout w \<noteq> []" "ParseDuration lib (wf_Timeout w) = Inl perr"
    by (cases "ParseDuration lib (wf_Timeout w)") (auto simp: valid_timeout_def)
  show ?thesis
    unfolding Execute_bad_timeout [OF bad] by (simp add: reported_def now_calls)
qed

lemma Execute_error_kind:
  assumes "snd (fst (Execute lib e ctx w st)) = Some er"
  shows "(\<exists>perr. er = InvalidTimeout perr \<and> wf_Timeout w \<noteq> []
              \<and> ParseDuration lib (wf_Timeout w) = Inl perr)
         \<or> (\<exists>s\<in>set (wf_Steps w).
               (\<exists>perr. er = InvalidTimeout perr \<and> Timeout s \<noteq> []
                    \<and> ParseDuration lib (Timeout s) = Inl perr)
               \<or> (er = UnknownAction (Action s) \<and> actions e (Action s) = None)
               \<or> (\<exists>msg. er = ActionError msg))"
proof (cases "valid_timeout lib (wf_Timeout w)")
  case True
  from assms have "snd (fst (Execute_loop lib e (step_ctx lib ctx (wf_Timeout w))
       \<lparr>WorkflowName = wf_Name w, wr_Status = StatusRunning, wr_Steps = [],
        wr_StartTime = fst (now lib st), wr_EndTime = zero_Time, wr_Duration = 0, wr_Error = None\<rparr>
       (wf_Steps w) (snd (now lib st)))) = Some er"
    unfolding Execute_eq [OF True] .
  from Execute_loop_error [OF this]
  obtain s st0 where s: "s \<in> set (wf_Steps w)"
    and "snd (fst (ExecuteStep lib e (step_ctx lib ctx (wf_Timeout w)) s None st0)) = Some er"
    by blast
  from ExecuteStep_error_kind [OF this(2)] s show ?thesis by blast
next
  case False
  then obtain perr where bad: "wf_Timeout w \<noteq> []" "ParseDuration lib (wf_Timeout w) = Inl perr"
    by (cases "ParseDuration lib (wf_Timeout w)") (auto simp: valid_timeout_def)
  from assms have "er = InvalidTimeout perr"
    unfolding Execute_bad_timeout [OF bad] by simp
  with bad show ?thesis by blast
qed

lemma ExecuteStep_no_error_reaches:
  assumes "snd (fst (ExecuteStep lib e ctx s inputs st)) = None"
  shows "reaches_handler lib e s"
proof (cases rule: timeout_cases [of s lib])
  case (bad perr)
  from ExecuteStep_bad_timeout [OF bad, of e ctx inputs st] assms show ?thesis by auto
next
  case ok
  show ?thesis
  proof (cases "actions e (Action s)")
    case None
    from ExecuteStep_unknown_action [OF ok None, of ctx inputs st] assms show ?thesis by auto
  next
    case (Some h)
    with ok show ?thesis by (simp add: reaches_handler_def)
  qed
qed

lemma Execute_loop_no_error_calls:
  assumes "snd (fst (Execute_loop lib e ctx result steps st)) = None"
  shows "calls (snd (Execute_loop lib e ctx result steps st))
           = calls st @ map (\<lambda>s. (Action s, merged_inputs s None)) steps"
  using assms
proof (induction steps arbitrary: result st)
  case Nil
  show ?case by (simp add: wr_stamp_eq now_calls)
next
  case (Cons step rest)
  obtain sr s1 where a: "ExecuteStep lib e ctx step None st = ((Some sr, Error sr), s1)"
    using ExecuteStep_outcome [of lib e ctx step None st] by blast
  show ?case
  proof (cases "Error sr")
    case None
    let ?r1 = "result\<lparr>wr_Steps := wr_Steps result @ [Some sr]\<rparr>"
    have l: "Execute_loop lib e ctx result (step # rest) st = Execute_loop lib e ctx ?r1 rest s1"
      using a None by simp
    from a None have "snd (fst (ExecuteStep lib e ctx step None st)) = None" by simp
    then have "reaches_handler lib e step" by (rule ExecuteStep_no_error_reaches)
    with ExecuteStep_calls [of lib e ctx step None st] a
    have c1: "calls s1 = calls st @ [(Action step, merged_inputs step None)]" by simp
    from Cons.prems have "snd (fst (Execute_loop lib e ctx ?r1 rest s1)) = None"
      unfolding l .
    from Cons.IH [OF this] show ?thesis
      unfolding l c1 by simp
  next
    case (Some er)
    have "snd (fst (Execute_loop lib e ctx result (step # rest) st)) = Some er"
      using a Some by (simp add: wr_stamp_eq)
    with Cons.prems show ?thesis by simp
  qed
qed

lemma Execute_no_error_calls:
  assumes "snd (fst (Execute lib e ctx w st)) = None"
  shows "calls (snd (Execute lib e ctx w st))
           = calls st @ map (\<lambda>s. (Action s, merged_inputs s None)) (wf_Steps w)"
proof (cases "valid_timeout lib (wf_Timeout w)")
  case True
  from assms have "snd (fst (Execute_loop lib e (step_ctx lib ctx (wf_Timeout w))
       \<lparr>WorkflowName = wf_Name w, wr_Status = StatusRunning, wr_Steps = [],
        wr_StartTime = fst (now lib st), wr_EndTime = zero_Time, wr_Duration = 0, wr_Error = None\<rparr>
       (wf_Steps w) (snd (now lib st)))) = None"
    unfolding Execute_eq [OF True] .
  from Execute_loop_no_error_calls [OF this] show ?thesis
    unfolding Execute_eq [OF True] by (simp add: now_calls)
next
  case False
  then obtain perr where bad: "wf_Timeout w \<noteq> []" "ParseDuration lib (wf_Timeout w) = Inl perr"
    by (cases "ParseDuration lib (wf_Timeout w)") (auto simp: valid_timeout_def)
  from assms show ?thesis
    unfolding Execute_bad_timeout [OF bad] by simp
qed

text \<open>
  Claim C2, as amended. \<^verbatim>\<open>Execute\<close> never reads \<^verbatim>\<open>dependsOn\<close>: for every workflow,
  cyclic or not, the result, the error and the handler invocations are those of the
  same workflow with any other \<^verbatim>\<open>dependsOn\<close> sets, for instance all empty. Steps run
  in declaration order: the handlers invoked are, in the order of the step list, those
  of the reported steps (the first n declared steps, n being the number of step results
  in the report) that reach their handler, each invoked once with its merged inputs;
  when \<^verbatim>\<open>Execute\<close> returns no error, that is the handler of every declared step, in
  declaration order. No dependency graph is built and no error reports a cycle: an
  error that \<^verbatim>\<open>Execute\<close> returns is the invalid-timeout error of the workflow or of a
  step, the unknown-action error of a step whose action is unregistered, or the error
  of a handler.
\<close>

theorem Execute_ignores_DependsOn:
  "Execute lib e ctx (w\<lparr>wf_Steps := map (\<lambda>s. s\<lparr>DependsOn := d s\<rparr>) (wf_Steps w)\<rparr>) st
     = Execute lib e ctx w st
   \<and> calls (snd (Execute lib e ctx w st))
       = calls st @ map (\<lambda>s. (Action s, merged_inputs s None))
                        (filter (reaches_handler lib e)
                           (take (reported (fst (fst (Execute lib e ctx w st)))) (wf_Steps w)))
   \<and> (snd (fst (Execute lib e ctx w st)) = None \<longrightarrow>
         calls (snd (Execute lib e ctx w st))
           = calls st @ map (\<lambda>s. (Action s, merged_inputs s None)) (wf_Steps w))
   \<and> (\<forall>er. snd (fst (Execute lib e ctx w st)) = Some er \<longrightarrow>
         (\<exists>perr. er = InvalidTimeout perr \<and> wf_Timeout w \<noteq> []
              \<and> ParseDuration lib (wf_Timeout w) = Inl perr)
         \<or> (\<exists>s\<in>set (wf_Steps w).
               (\<exists>perr. er = InvalidTimeout perr \<and> Timeout s \<noteq> []
                    \<and> ParseDuration lib (Timeout s) = Inl perr)
               \<or> (er = UnknownAction (Action s) \<and> actions e (Action s) = None)
               \<or> (\<exists>msg. er = ActionError msg)))"
proof (intro conjI allI impI)
  show "Execute lib e ctx (w\<lparr>wf_Steps := map (\<lambda>s. s\<lparr>DependsOn := d s\<rparr>) (wf_Steps w)\<rparr>) st
          = Execute lib e ctx w st"
    by (rule Execute_map_steps) (rule ExecuteStep_same_fields, simp_all)
  show "calls (snd (Execute lib e ctx w st))
       = calls st @ map (\<lambda>s. (Action s, merged_inputs s None))
                        (filter (reaches_handler lib e)
                           (take (reported (fst (fst (Execute lib e ctx w st)))) (wf_Steps w)))"
    by (rule Execute_calls)
  show "calls (snd (Execute lib e ctx w st))
           = calls st @ map (\<lambda>s. (Action s, merged_inputs s None)) (wf_Steps w)"
    if "snd (fst (Execute lib e ctx w st)) = None"
    using that by (rule Execute_no_error_calls)
  show "(\<exists>perr. er = InvalidTimeout perr \<and> wf_Timeout w \<noteq> []
              \<and> ParseDuration lib (wf_Timeout w) = Inl perr)
         \<or> (\<exists>s\<in>set (wf_Steps w).
               (\<exists>perr. er = InvalidTimeout perr \<and> Timeout s \<noteq> []
                    \<and> ParseDuration lib (Timeout s) = Inl perr)
               \<or> (er = UnknownAction (Action s) \<and> actions e (Action s) = None)
               \<or> (\<exists>msg. er = ActionError msg))"
    if "snd (fst (Execute lib e ctx w st)) = Some er" for er
    using that by (rule Execute_error_kind)
qed

theorem Execute_ignores_DependsOn_witness:
  "snd (fst (Execute sample_lib sample_engine (Caller ()) cyclic_workflow st0)) = None
   \<and> calls (snd (Execute sample_lib sample_engine (Caller ()) cyclic_workflow st0))
       = calls st0 @ map (\<lambda>s. (Action s, merged_inputs s None)) (wf_Steps cyclic_workflow)
   \<and> map Action (wf_Steps cyclic_workflow) = [''noop'', ''echo'']
   \<and> snd (fst (Execute sample_lib sample_engine (Caller ()) cyclic_failing_workflow st0))
       = Some (UnknownAction ''missing'')
   \<and> ''missing'' \<in> Action ` set (wf_Steps cyclic_failing_workflow)
   \<and> actions sample_engine ''missing'' = None"
proof -
  have ok: "snd (fst (Execute sample_lib sample_engine (Caller ()) cyclic_workflow st0)) = None"
    by (simp add: engine_defs sample_defs cyclic_workflow_def Let_def)
  have acts: "map Action (wf_Steps cyclic_workflow) = [''noop'', ''echo'']"
    by (simp add: sample_defs cyclic_workflow_def)
  have bad: "snd (fst (Execute sample_lib sample_engine (Caller ()) cyclic_failing_workflow st0))
               = Some (UnknownAction ''missing'')"
    by (simp add: engine_defs sample_defs cyclic_failing_workflow_def Let_def)
  note run = Execute_ignores_DependsOn [where lib = sample_lib and e = sample_engine
      and ctx = "Caller ()" and w = cyclic_workflow and st = st0 and d = DependsOn]
  note fail = Execute_ignores_DependsOn [where lib = sample_lib and e = sample_engine
      and ctx = "Caller ()" and w = cyclic_failing_workflow and st = st0 and d = DependsOn]
  from run [THEN conjunct2, THEN conjunct2, THEN conjunct1, THEN mp, OF ok]
  have c: "calls (snd (Execute sample_lib sample_engine (Caller ()) cyclic_workflow st0))
       = calls st0 @ map (\<lambda>s. (Action s, merged_inputs s None)) (wf_Steps cyclic_workflow)"
    .
  from fail [THEN conjunct2, THEN conjunct2, THEN conjunct2, THEN spec, THEN mp, OF bad]
  have "(\<exists>perr. UnknownAction ''missing'' = InvalidTimeout perr \<and> wf_Timeout cyclic_failing_workflow \<noteq> []
              \<and> ParseDuration sample_lib (wf_Timeout cyclic_failing_workflow) = Inl perr)
         \<or> (\<exists>s\<in>set (wf_Steps cyclic_failing_workflow).
               (\<exists>perr. UnknownAction ''missing'' = InvalidTimeout perr \<and> Timeout s \<noteq> []
                    \<and> ParseDuration sample_lib (Timeout s) = Inl perr)
               \<or> (UnknownAction ''missing'' = UnknownAction (Action s)
                    \<and> actions sample_engine (Action s) = None)
               \<or> (\<exists>msg. UnknownAction ''missing'' = ActionError msg))"
    .
  then obtain s where s: "s \<in> set (wf_Steps cyclic_failing_workflow)"
    and a: "Action s = ''missing''" and n: "actions sample_engine (Action s) = None"
    by auto
  from s a have m: "''missing'' \<in> Action ` set (wf_Steps cyclic_failing_workflow)"
    by (metis imageI)
  from n a have n': "actions sample_engine ''missing'' = None" by simp
  from ok c acts bad m n' show ?thesis
    apply -
    apply (intro conjI; assumption)
    done
qed

text \<open>
  Claim C2 as stated fails on the workflow of two steps A and B, A depending on B and
  B on A: \<^verbatim>\<open>Execute\<close> returns no error, the workflow ends Completed, and the handler is
  invoked twice.
\<close>

theorem cyclic_DependsOn_counterexample:
  "DependsOn ((sample_step ''A'' ''noop'')\<lparr>DependsOn := [''B'']\<rparr>) = [''B'']
   \<and> DependsOn ((sample_step ''B'' ''noop'')\<lparr>DependsOn := [''A'']\<rparr>) = [''A'']
   \<and> snd (fst (Execute sample_lib sample_engine (Caller ())
                 (sample_workflow [(sample_step ''A'' ''noop'')\<lparr>DependsOn := [''B'']\<rparr>,
                                   (sample_step ''B'' ''noop'')\<lparr>DependsOn := [''A'']\<rparr>]) st0))
       = None
   \<and> map_option wr_Status
        (fst (fst (Execute sample_lib sample_engine (Caller ())
                 (sample_workflow [(sample_step ''A'' ''noop'')\<lparr>DependsOn := [''B'']\<rparr>,
                                   (sample_step ''B'' ''noop'')\<lparr>DependsOn := [''A'']\<rparr>]) st0)))
       = Some StatusCompleted
   \<and> map fst (calls (snd (Execute sample_lib sample_engine (Caller ())
                 (sample_workflow [(sample_step ''A'' ''noop'')\<lparr>DependsOn := [''B'']\<rparr>,
                                   (sample_step ''B'' ''noop'')\<lparr>DependsOn := [''A'']\<rparr>]) st0)))
       = [''noop'', ''noop'']"
  by (simp add: engine_defs sample_defs)

section \<open>Retries\<close>

text \<open>
  Claim C4, as amended. For every step with \<^verbatim>\<open>retries\<close> = n, \<^verbatim>\<open>ExecuteStep\<close> behaves as
  it does for any other n: it invokes the action handler at most once, and when the
  handler is reached (the timeout passes its guard and the action is registered) the
  StepResult carries the outcome of that single invocation: Completed with the
  handler's output, or Failed with the handler's error. A handler that fails twice and
  then succeeds therefore ends Failed after one invocation under \<^verbatim>\<open>retries: 2\<close> as under
  \<^verbatim>\<open>retries: 1\<close>; a StepResult has no attempt counter.
\<close>

theorem ExecuteStep_single_attempt:
  "ExecuteStep lib e ctx (step\<lparr>Retries := n\<rparr>) inputs st = ExecuteStep lib e ctx step inputs st
   \<and> length (calls (snd (ExecuteStep lib e ctx step inputs st))) \<le> Suc (length (calls st))
   \<and> (\<forall>h out err w'.
         valid_timeout lib (Timeout step) \<and> actions e (Action step) = Some h
         \<and> h (step_ctx lib ctx (Timeout step)) (merged_inputs step inputs) (world (snd (now lib st)))
             = ((out, err), w')
         \<longrightarrow> (\<exists>r. fst (fst (ExecuteStep lib e ctx step inputs st)) = Some r
                \<and> Status r = (if err = None then StatusCompleted else StatusFailed)
                \<and> Output r = (if err = None then out else None)
                \<and> Error r = map_option ActionError err
                \<and> snd (fst (ExecuteStep lib e ctx step inputs st)) = map_option ActionError err
                \<and> calls (snd (ExecuteStep lib e ctx step inputs st))
                    = calls st @ [(Action step, merged_inputs step inputs)]))"
proof (intro conjI allI impI)
  show "ExecuteStep lib e ctx (step\<lparr>Retries := n\<rparr>) inputs st = ExecuteStep lib e ctx step inputs st"
    by (rule ExecuteStep_same_fields) simp_all
  show "length (calls (snd (ExecuteStep lib e ctx step inputs st))) \<le> Suc (length (calls st))"
  proof (cases rule: timeout_cases [of step lib])
    case (bad perr)
    from ExecuteStep_bad_timeout [OF this, of e ctx inputs st] show ?thesis
      by (auto simp: now_calls)
  next
    case ok
    show ?thesis
    proof (cases "actions e (Action step)")
      case None
      from ExecuteStep_unknown_action [OF ok None, of ctx inputs st] show ?thesis
        by (auto simp: now_calls)
    next
      case (Some h)
      obtain out err w' where
        "h (step_ctx lib ctx (Timeout step)) (merged_inputs step inputs) (world (snd (now lib st)))
           = ((out, err), w')"
        by (metis surj_pair)
      from ExecuteStep_invoked [OF ok Some this] show ?thesis by auto
    qed
  qed
next
  fix h out err w'
  assume a: "valid_timeout lib (Timeout step) \<and> actions e (Action step) = Some h
         \<and> h (step_ctx lib ctx (Timeout step)) (merged_inputs step inputs) (world (snd (now lib st)))
             = ((out, err), w')"
  then have v: "valid_timeout lib (Timeout step)" and h: "actions e (Action step) = Some h"
    and r: "h (step_ctx lib ctx (Timeout step)) (merged_inputs step inputs) (world (snd (now lib st)))
             = ((out, err), w')"
    by blast+
  from ExecuteStep_invoked [OF v h r]
  show "\<exists>r. fst (fst (ExecuteStep lib e ctx step inputs st)) = Some r
                \<and> Status r = (if err = None then StatusCompleted else StatusFailed)
                \<and> Output r = (if err = None then out else None)
                \<and> Error r = map_option ActionError err
                \<and> snd (fst (ExecuteStep lib e ctx step inputs st)) = map_option ActionError err
                \<and> calls (snd (ExecuteStep lib e ctx step inputs st))
                    = calls st @ [(Action step, merged_inputs step inputs)]"
    by auto
qed

theorem ExecuteStep_single_attempt_witness:
  "valid_timeout sample_lib (Timeout ((sample_step ''s1'' ''flaky'')\<lparr>Retries := 2\<rparr>))
   \<and> actions sample_engine (Action ((sample_step ''s1'' ''flaky'')\<lparr>Retries := 2\<rparr>)) = Some flaky
   \<and> flaky (step_ctx sample_lib (Caller ()) (Timeout ((sample_step ''s1'' ''flaky'')\<lparr>Retries := 2\<rparr>)))
        (merged_inputs ((sample_step ''s1'' ''flaky'')\<lparr>Retries := 2\<rparr>) None)
        (world (snd (now sample_lib st0)))
       = ((None, Some ''transient failure''), \<lparr>clock = 1, attempts = 1\<rparr>)
   \<and> (\<exists>r. fst (fst (ExecuteStep sample_lib sample_engine (Caller ())
                       ((sample_step ''s1'' ''flaky'')\<lparr>Retries := 2\<rparr>) None st0)) = Some r
          \<and> Status r = StatusFailed
          \<and> Error r = Some (ActionError ''transient failure''))
   \<and> map fst (calls (snd (ExecuteStep sample_lib sample_engine (Caller ())
                       ((sample_step ''s1'' ''flaky'')\<lparr>Retries := 2\<rparr>) None st0))) = [''flaky'']"
proof -
  let ?s = "(sample_step ''s1'' ''flaky'')\<lparr>Retries := 2\<rparr>"
  have a: "valid_timeout sample_lib (Timeout ?s) \<and> actions sample_engine (Action ?s) = Some flaky
     \<and> flaky (step_ctx sample_lib (Caller ()) (Timeout ?s)) (merged_inputs ?s None)
          (world (snd (now sample_lib st0)))
        = ((None, Some ''transient failure''), \<lparr>clock = 1, attempts = 1\<rparr>)"
    by (simp add: valid_timeout_def step_ctx_def now_def sample_defs)
  with ExecuteStep_single_attempt
         [where lib = sample_lib and e = sample_engine and ctx = "Caller ()" and step = ?s
            and inputs = None and st = st0]
  obtain r where "fst (fst (ExecuteStep sample_lib sample_engine (Caller ()) ?s None st0)) = Some r"
    and "Status r = (if Some ''transient failure'' = None then StatusCompleted else StatusFailed)"
    and "Error r = map_option ActionError (Some ''transient failure'')"
    and "calls (snd (ExecuteStep sample_lib sample_engine (Caller ()) ?s None st0))
           = calls st0 @ [(Action ?s, merged_inputs ?s None)]"
    by blast
  then have "(\<exists>r. fst (fst (ExecuteStep sample_lib sample_engine (Caller ()) ?s None st0)) = Some r
          \<and> Status r = StatusFailed \<and> Error r = Some (ActionError ''transient failure''))
     \<and> map fst (calls (snd (ExecuteStep sample_lib sample_engine (Caller ()) ?s None st0))) = [''flaky'']"
    by (simp add: sample_step_def st0_def)
  with a show ?thesis by blast
qed

text \<open>
  Claim C4 as stated fails on the handler that fails twice and then succeeds: under
  \<^verbatim>\<open>retries: 2\<close> the step ends Failed, not Completed, the handler having been invoked
  once, not three times; under \<^verbatim>\<open>retries: 1\<close> it is invoked once as well.
\<close>

theorem retries_counterexample:
  "Retries ((sample_step ''s1'' ''flaky'')\<lparr>Retries := 2\<rparr>) = 2
   \<and> map_option Status
        (fst (fst (ExecuteStep sample_lib sample_engine (Caller ())
                     ((sample_step ''s1'' ''flaky'')\<lparr>Retries := 2\<rparr>) None st0)))
       = Some StatusFailed
   \<and> map fst (calls (snd (ExecuteStep sample_lib sample_engine (Caller ())
                     ((sample_step ''s1'' ''flaky'')\<lparr>Retries := 2\<rparr>) None st0)))
       = [''flaky'']
   \<and> attempts (world (snd (ExecuteStep sample_lib sample_engine (Caller ())
                     ((sample_step ''s1'' ''flaky'')\<lparr>Retries := 2\<rparr>) None st0)))
       = 1
   \<and> map fst (calls (snd (ExecuteStep sample_lib sample_engine (Caller ())
                     ((sample_step ''s1'' ''flaky'')\<lparr>Retries := 1\<rparr>) None st0)))
       = [''flaky'']"
  by (simp add: engine_defs sample_defs)

section \<open>The report of a workflow\<close>

lemma wf_timeout_cases:
  obtains (bad) perr where "wf_Timeout w \<noteq> []" "ParseDuration lib (wf_Timeout w) = Inl perr"
  | (ok) "valid_timeout lib (wf_Timeout w)"
  by (cases "ParseDuration lib (wf_Timeout w)") (auto simp: valid_timeout_def)

lemma Execute_valid_shape:
  assumes "valid_timeout lib (wf_Timeout w)"
  shows "\<exists>r st'. Execute lib e ctx w st = ((Some r, wr_Error r), st')
     \<and> WorkflowName r = wf_Name w
     \<and> length (wr_Steps r) \<le> length (wf_Steps w)
     \<and> (\<forall>i<length (wr_Steps r). \<exists>sr. wr_Steps r ! i = Some sr \<and> StepID sr = ID (wf_Steps w ! i)
            \<and> (if Suc i = length (wr_Steps r) \<and> wr_Status r = StatusFailed
                then Status sr = StatusFailed \<and> Error sr = wr_Error r \<and> Error sr \<noteq> None
                else Status sr = StatusCompleted \<and> Error sr = None))
     \<and> (wr_Status r = StatusCompleted \<and> wr_Error r = None
            \<and> length (wr_Steps r) = length (wf_Steps w)
          \<or> wr_Status r = StatusFailed \<and> wr_Error r \<noteq> None \<and> wr_Steps r \<noteq> [])"
proof -
  let ?init = "\<lparr>WorkflowName = wf_Name w, wr_Status = StatusRunning, wr_Steps = [],
        wr_StartTime = fst (now lib st), wr_EndTime = zero_Time, wr_Duration = 0, wr_Error = None\<rparr>"
  have "wr_Error ?init = None" by simp
  from Execute_loop_shape [OF this, of lib e "step_ctx lib ctx (wf_Timeout w)" "wf_Steps w" "snd (now lib st)"]
  show ?thesis
    unfolding Execute_eq [OF assms] by simp
qed

lemma Execute_Some_valid:
  assumes "fst (fst (Execute lib e ctx w st)) = Some r"
  shows "valid_timeout lib (wf_Timeout w)"
proof (cases rule: wf_timeout_cases [of w lib])
  case (bad perr)
  from Execute_bad_timeout [OF this, of e ctx st] assms show ?thesis by simp
next
  case ok
  then show ?thesis .
qed

text \<open>
  Claim C7. For every workflow execution, the StepResult collection of the
  WorkflowResult is ordered by the declaration order of the steps in the workflow's
  step list: the identifiers of the results, read in order, are an initial segment of
  the identifiers of the declared steps. The engine runs one step at a time, so the
  order of completion is the order of declaration.
\<close>

theorem Execute_results_in_declaration_order:
  assumes "fst (fst (Execute lib e ctx w st)) = Some r"
  shows "prefix (map (map_option StepID) (wr_Steps r)) (map (\<lambda>s. Some (ID s)) (wf_Steps w))"
proof -
  from Execute_valid_shape [OF Execute_Some_valid [OF assms], of e ctx st] assms
  have len: "length (wr_Steps r) \<le> length (wf_Steps w)"
    and each: "\<forall>i<length (wr_Steps r). \<exists>sr. wr_Steps r ! i = Some sr \<and> StepID sr = ID (wf_Steps w ! i)"
    by auto
  have "map (map_option StepID) (wr_Steps r)
          = take (length (wr_Steps r)) (map (\<lambda>s. Some (ID s)) (wf_Steps w))"
  proof (rule nth_equalityI)
    show "length (map (map_option StepID) (wr_Steps r))
            = length (take (length (wr_Steps r)) (map (\<lambda>s. Some (ID s)) (wf_Steps w)))"
      using len by simp
  next
    fix i assume "i < length (map (map_option StepID) (wr_Steps r))"
    then have i: "i < length (wr_Steps r)" by simp
    with each obtain sr where "wr_Steps r ! i = Some sr" "StepID sr = ID (wf_Steps w ! i)" by blast
    with i len show "map (map_option StepID) (wr_Steps r) ! i
            = take (length (wr_Steps r)) (map (\<lambda>s. Some (ID s)) (wf_Steps w)) ! i"
      by simp
  qed
  then show ?thesis by (metis take_is_prefix)
qed


theorem Execute_results_in_declaration_order_witness:
  "\<exists>r. fst (fst (Execute sample_lib sample_engine (Caller ())
                   (sample_workflow [sample_step ''s1'' ''noop'', sample_step ''s2'' ''echo'']) st0)) = Some r
       \<and> map (map_option StepID) (wr_Steps r) = [Some ''s1'', Some ''s2'']
       \<and> prefix (map (map_option StepID) (wr_Steps r))
            (map (\<lambda>s. Some (ID s))
               (wf_Steps (sample_workflow [sample_step ''s1'' ''noop'', sample_step ''s2'' ''echo''])))"
proof -
  have "\<exists>r. fst (fst (Execute sample_lib sample_engine (Caller ())
                   (sample_workflow [sample_step ''s1'' ''noop'', sample_step ''s2'' ''echo'']) st0)) = Some r
          \<and> map (map_option StepID) (wr_Steps r) = [Some ''s1'', Some ''s2'']"
    by (simp add: engine_defs sample_defs Let_def)
  then obtain r where r: "fst (fst (Execute sample_lib sample_engine (Caller ())
                   (sample_workflow [sample_step ''s1'' ''noop'', sample_step ''s2'' ''echo'']) st0)) = Some r"
    and ids: "map (map_option StepID) (wr_Steps r) = [Some ''s1'', Some ''s2'']"
    by (elim exE conjE)
  from r ids Execute_results_in_declaration_order [OF r] show ?thesis
    apply -
    apply (rule exI [of _ r])
    apply (intro conjI; assumption)
    done
qed

text \<open>
  Claim C6, as amended. For every workflow execution that returns a WorkflowResult,
  the result enumerates a terminal StepResult, in declaration order, for every step up
  to and including the first failed step and for none after it: each result is
  Completed with no error, or Failed with its error as cause, and a Failed result is
  the last one; a step is missing from the report only behind a failed step. No step
  is reported Skipped.
\<close>

theorem Execute_enumerates_up_to_first_failure:
  assumes "fst (fst (Execute lib e ctx w st)) = Some r"
  shows "length (wr_Steps r) \<le> length (wf_Steps w)
     \<and> (\<forall>i<length (wr_Steps r). \<exists>sr. wr_Steps r ! i = Some sr \<and> StepID sr = ID (wf_Steps w ! i)
            \<and> (Status sr = StatusCompleted \<and> Error sr = None
                \<or> Status sr = StatusFailed \<and> Error sr \<noteq> None \<and> Suc i = length (wr_Steps r)))
     \<and> (length (wr_Steps r) < length (wf_Steps w) \<longrightarrow>
           wr_Steps r \<noteq> [] \<and> (\<exists>sr. last (wr_Steps r) = Some sr \<and> Status sr = StatusFailed))"
proof -
  from Execute_valid_shape [OF Execute_Some_valid [OF assms], of e ctx st]
  obtain r' st' where run: "Execute lib e ctx w st = ((Some r', wr_Error r'), st')"
    and len': "length (wr_Steps r') \<le> length (wf_Steps w)"
    and each': "\<forall>i<length (wr_Steps r'). \<exists>sr. wr_Steps r' ! i = Some sr \<and> StepID sr = ID (wf_Steps w ! i)
            \<and> (if Suc i = length (wr_Steps r') \<and> wr_Status r' = StatusFailed
                then Status sr = StatusFailed \<and> Error sr = wr_Error r' \<and> Error sr \<noteq> None
                else Status sr = StatusCompleted \<and> Error sr = None)"
    and fin': "wr_Status r' = StatusCompleted \<and> wr_Error r' = None
            \<and> length (wr_Steps r') = length (wf_Steps w)
          \<or> wr_Status r' = StatusFailed \<and> wr_Error r' \<noteq> None \<and> wr_Steps r' \<noteq> []"
    by blast
  from run assms have eq: "r' = r" by simp
  note len = len' [unfolded eq] and each = each' [unfolded eq] and fin = fin' [unfolded eq]
  have 2: "\<forall>i<length (wr_Steps r). \<exists>sr. wr_Steps r ! i = Some sr \<and> StepID sr = ID (wf_Steps w ! i)
            \<and> (Status sr = StatusCompleted \<and> Error sr = None
                \<or> Status sr = StatusFailed \<and> Error sr \<noteq> None \<and> Suc i = length (wr_Steps r))"
  proof (intro allI impI)
    fix i assume "i < length (wr_Steps r)"
    with each obtain sr where sr: "wr_Steps r ! i = Some sr" "StepID sr = ID (wf_Steps w ! i)"
      "if Suc i = length (wr_Steps r) \<and> wr_Status r = StatusFailed
                then Status sr = StatusFailed \<and> Error sr = wr_Error r \<and> Error sr \<noteq> None
                else Status sr = StatusCompleted \<and> Error sr = None"
      by blast
    then show "\<exists>sr. wr_Steps r ! i = Some sr \<and> StepID sr = ID (wf_Steps w ! i)
            \<and> (Status sr = StatusCompleted \<and> Error sr = None
                \<or> Status sr = StatusFailed \<and> Error sr \<noteq> None \<and> Suc i = length (wr_Steps r))"
    proof (cases "Suc i = length (wr_Steps r) \<and> wr_Status r = StatusFailed")
      case True
      from sr(3) have "Status sr = StatusFailed \<and> Error sr = wr_Error r \<and> Error sr \<noteq> None"
        unfolding if_P [OF True] .
      with True sr(1,2) show ?thesis by blast
    next
      case False
      from sr(3) have "Status sr = StatusCompleted \<and> Error sr = None"
        unfolding if_not_P [OF False] .
      with sr(1,2) show ?thesis by blast
    qed
  qed
  have 3: "wr_Steps r \<noteq> [] \<and> (\<exists>sr. last (wr_Steps r) = Some sr \<and> Status sr = StatusFailed)"
    if short: "length (wr_Steps r) < length (wf_Steps w)"
  proof -
    from fin short have f: "wr_Status r = StatusFailed" and ne: "wr_Steps r \<noteq> []" by auto
    then have "length (wr_Steps r) - 1 < length (wr_Steps r)"
      and "Suc (length (wr_Steps r) - 1) = length (wr_Steps r)" by simp_all
    with each f obtain sr where "wr_Steps r ! (length (wr_Steps r) - 1) = Some sr"
      "Status sr = StatusFailed"
      by (metis (no_types, lifting))
    with ne show ?thesis by (simp add: last_conv_nth)
  qed
  from len 2 3 show ?thesis by blast
qed

theorem Execute_enumerates_up_to_first_failure_witness:
  "\<exists>r. fst (fst (Execute sample_lib sample_engine (Caller ())
                   (sample_workflow [sample_step ''s1'' ''noop'', sample_step ''s2'' ''missing'',
                                     sample_step ''s3'' ''noop'']) st0)) = Some r
       \<and> length (wr_Steps r) = 2
       \<and> length (wr_Steps r)
           < length (wf_Steps (sample_workflow [sample_step ''s1'' ''noop'', sample_step ''s2'' ''missing'',
                                     sample_step ''s3'' ''noop'']))
       \<and> wr_Steps r \<noteq> [] \<and> (\<exists>sr. last (wr_Steps r) = Some sr \<and> Status sr = StatusFailed)"
proof -
  have "\<exists>r. fst (fst (Execute sample_lib sample_engine (Caller ())
                   (sample_workflow [sample_step ''s1'' ''noop'', sample_step ''s2'' ''missing'',
                                     sample_step ''s3'' ''noop'']) st0)) = Some r
          \<and> length (wr_Steps r) = 2"
    by (simp add: engine_defs sample_defs Let_def)
  then obtain r where r: "fst (fst (Execute sample_lib sample_engine (Caller ())
                   (sample_workflow [sample_step ''s1'' ''noop'', sample_step ''s2'' ''missing'',
                                     sample_step ''s3'' ''noop'']) st0)) = Some r"
    and n: "length (wr_Steps r) = 2"
    by (elim exE conjE)
  then have short: "length (wr_Steps r)
           < length (wf_Steps (sample_workflow [sample_step ''s1'' ''noop'', sample_step ''s2'' ''missing'',
                                     sample_step ''s3'' ''noop'']))"
    by (simp add: sample_workflow_def)
  with Execute_enumerates_up_to_first_failure [OF r]
  have "wr_Steps r \<noteq> []" and "\<exists>sr. last (wr_Steps r) = Some sr \<and> Status sr = StatusFailed"
    by simp_all
  with r n short show ?thesis
    apply -
    apply (rule exI [of _ r])
    apply (intro conjI; assumption)
    done
qed

text \<open>
  Claim C6 as stated fails on a workflow of three steps whose second step has an
  unregistered action: the report holds two results, and none for the third step.
\<close>

theorem Execute_enumerates_every_step_counterexample:
  "length (wf_Steps (sample_workflow [sample_step ''s1'' ''noop'', sample_step ''s2'' ''missing'',
                                      sample_step ''s3'' ''noop''])) = 3
   \<and> map_option (\<lambda>r. map (map_option (\<lambda>sr. (StepID sr, Status sr))) (wr_Steps r))
        (fst (fst (Execute sample_lib sample_engine (Caller ())
                     (sample_workflow [sample_step ''s1'' ''noop'', sample_step ''s2'' ''missing'',
                                       sample_step ''s3'' ''noop'']) st0)))
       = Some [Some (''s1'', StatusCompleted), Some (''s2'', StatusFailed)]"
  by (simp add: engine_defs sample_defs)

text \<open>
  Claim C1, as amended. For every workflow whose timeout string is empty or parses,
  \<^verbatim>\<open>Execute\<close> returns a non-nil WorkflowResult, also when execution fails partway; the
  returned error is the one stored in the result, it is non-nil exactly when the
  result's status is Failed, and it is then the run-time error of the last step run
  (the engine has no graph-construction stage). For a workflow whose timeout string
  does not parse, \<^verbatim>\<open>Execute\<close> returns a nil WorkflowResult and the invalid-timeout
  error, and runs no step.
\<close>

theorem Execute_result_and_error:
  "(valid_timeout lib (wf_Timeout w) \<longrightarrow>
      (\<exists>r. fst (fst (Execute lib e ctx w st)) = Some r
         \<and> wr_Error r = snd (fst (Execute lib e ctx w st))
         \<and> (wr_Status r = StatusCompleted \<or> wr_Status r = StatusFailed)
         \<and> ((snd (fst (Execute lib e ctx w st)) \<noteq> None) = (wr_Status r = StatusFailed))
         \<and> (snd (fst (Execute lib e ctx w st)) \<noteq> None \<longrightarrow>
               wr_Steps r \<noteq> []
               \<and> (\<exists>sr. last (wr_Steps r) = Some sr \<and> Status sr = StatusFailed
                      \<and> Error sr = snd (fst (Execute lib e ctx w st))))))
   \<and> (\<forall>perr. wf_Timeout w \<noteq> [] \<and> ParseDuration lib (wf_Timeout w) = Inl perr \<longrightarrow>
         fst (Execute lib e ctx w st) = (None, Some (InvalidTimeout perr))
         \<and> calls (snd (Execute lib e ctx w st)) = calls st)"
proof (intro conjI allI impI)
  assume v: "valid_timeout lib (wf_Timeout w)"
  from Execute_valid_shape [OF v, of e ctx st]
  obtain r st' where run: "Execute lib e ctx w st = ((Some r, wr_Error r), st')"
    and each: "\<forall>i<length (wr_Steps r). \<exists>sr. wr_Steps r ! i = Some sr \<and> StepID sr = ID (wf_Steps w ! i)
            \<and> (if Suc i = length (wr_Steps r) \<and> wr_Status r = StatusFailed
                then Status sr = StatusFailed \<and> Error sr = wr_Error r \<and> Error sr \<noteq> None
                else Status sr = StatusCompleted \<and> Error sr = None)"
    and fin: "wr_Status r = StatusCompleted \<and> wr_Error r = None
            \<and> length (wr_Steps r) = length (wf_Steps w)
          \<or> wr_Status r = StatusFailed \<and> wr_Error r \<noteq> None \<and> wr_Steps r \<noteq> []"
    by blast
  have last: "wr_Steps r \<noteq> []
               \<and> (\<exists>sr. last (wr_Steps r) = Some sr \<and> Status sr = StatusFailed
                      \<and> Error sr = wr_Error r)"
    if "wr_Error r \<noteq> None"
  proof -
    from fin that have f: "wr_Status r = StatusFailed" and ne: "wr_Steps r \<noteq> []" by auto
    then have "length (wr_Steps r) - 1 < length (wr_Steps r)"
      and "Suc (length (wr_Steps r) - 1) = length (wr_Steps r)" by simp_all
    with each f obtain sr where "wr_Steps r ! (length (wr_Steps r) - 1) = Some sr"
      "Status sr = StatusFailed" "Error sr = wr_Error r"
      by (metis (no_types, lifting))
    with ne show ?thesis by (simp add: last_conv_nth)
  qed
  from run fin last
  show "\<exists>r. fst (fst (Execute lib e ctx w st)) = Some r
         \<and> wr_Error r = snd (fst (Execute lib e ctx w st))
         \<and> (wr_Status r = StatusCompleted \<or> wr_Status r = StatusFailed)
         \<and> ((snd (fst (Execute lib e ctx w st)) \<noteq> None) = (wr_Status r = StatusFailed))
         \<and> (snd (fst (Execute lib e ctx w st)) \<noteq> None \<longrightarrow>
               wr_Steps r \<noteq> []
               \<and> (\<exists>sr. last (wr_Steps r) = Some sr \<and> Status sr = StatusFailed
                      \<and> Error sr = snd (fst (Execute lib e ctx w st))))"
    by auto
next
  fix perr
  assume "wf_Timeout w \<noteq> [] \<and> ParseDuration lib (wf_Timeout w) = Inl perr"
  then have "Execute lib e ctx w st = ((None, Some (InvalidTimeout perr)), snd (now lib st))"
    by (simp add: Execute_bad_timeout)
  then show "fst (Execute lib e ctx w st) = (None, Some (InvalidTimeout perr))"
    and "calls (snd (Execute lib e ctx w st)) = calls st"
    by (simp_all add: now_calls)
qed

theorem Execute_result_and_error_witness:
  "valid_timeout sample_lib (wf_Timeout (sample_workflow [sample_step ''s1'' ''noop'', sample_step ''s2'' ''missing'']))
   \<and> snd (fst (Execute sample_lib sample_engine (Caller ())
                 (sample_workflow [sample_step ''s1'' ''noop'', sample_step ''s2'' ''missing'']) st0))
        = Some (UnknownAction ''missing'')
   \<and> (\<exists>r. fst (fst (Execute sample_lib sample_engine (Caller ())
                 (sample_workflow [sample_step ''s1'' ''noop'', sample_step ''s2'' ''missing'']) st0)) = Some r
          \<and> wr_Status r = StatusFailed \<and> wr_Error r = Some (UnknownAction ''missing''))
   \<and> wf_Timeout ((sample_workflow [sample_step ''s1'' ''noop''])\<lparr>wf_Timeout := ''abc''\<rparr>) \<noteq> []
   \<and> ParseDuration sample_lib (wf_Timeout ((sample_workflow [sample_step ''s1'' ''noop''])\<lparr>wf_Timeout := ''abc''\<rparr>))
        = Inl (''time: invalid duration '' @ [CHR 0x22] @ ''abc'' @ [CHR 0x22])
   \<and> fst (Execute sample_lib sample_engine (Caller ())
            ((sample_workflow [sample_step ''s1'' ''noop''])\<lparr>wf_Timeout := ''abc''\<rparr>) st0)
        = (None, Some (InvalidTimeout (''time: invalid duration '' @ [CHR 0x22] @ ''abc'' @ [CHR 0x22])))"
proof -
  let ?w1 = "sample_workflow [sample_step ''s1'' ''noop'', sample_step ''s2'' ''missing'']"
  let ?w2 = "(sample_workflow [sample_step ''s1'' ''noop''])\<lparr>wf_Timeout := ''abc''\<rparr>"
  let ?msg = "''time: invalid duration '' @ [CHR 0x22] @ ''abc'' @ [CHR 0x22]"
  have v: "valid_timeout sample_lib (wf_Timeout ?w1)"
    by (simp add: valid_timeout_def sample_defs)
  have e: "snd (fst (Execute sample_lib sample_engine (Caller ()) ?w1 st0))
             = Some (UnknownAction ''missing'')"
    by (simp add: engine_defs sample_defs Let_def)
  have t: "wf_Timeout ?w2 \<noteq> []" by (simp add: sample_defs)
  have p: "ParseDuration sample_lib (wf_Timeout ?w2) = Inl ?msg" by (simp add: sample_defs)
  from Execute_result_and_error
         [where lib = sample_lib and e = sample_engine and ctx = "Caller ()" and w = ?w1 and st = st0]
       v
  obtain r where r: "fst (fst (Execute sample_lib sample_engine (Caller ()) ?w1 st0)) = Some r"
    and re: "wr_Error r = snd (fst (Execute sample_lib sample_engine (Caller ()) ?w1 st0))"
    and rs: "(snd (fst (Execute sample_lib sample_engine (Caller ()) ?w1 st0)) \<noteq> None)
               = (wr_Status r = StatusFailed)"
    by blast
  from rs e have 1: "wr_Status r = StatusFailed" by simp
  from re e have 2: "wr_Error r = Some (UnknownAction ''missing'')" by simp
  from r 1 2 have ex: "\<exists>r. fst (fst (Execute sample_lib sample_engine (Caller ()) ?w1 st0)) = Some r
          \<and> wr_Status r = StatusFailed \<and> wr_Error r = Some (UnknownAction ''missing'')"
    apply -
    apply (rule exI [of _ r])
    apply (intro conjI; assumption)
    done
  from Execute_result_and_error
         [where lib = sample_lib and e = sample_engine and ctx = "Caller ()" and w = ?w2 and st = st0]
       t p
  have b: "fst (Execute sample_lib sample_engine (Caller ()) ?w2 st0)
             = (None, Some (InvalidTimeout ?msg))"
    by blast
  from v e ex t p b show ?thesis
    apply -
    apply (intro conjI; assumption)
    done
qed

text \<open>
  Claim C1 as stated fails twice. A workflow whose only step has an unregistered
  action has nothing wrong with its graph, yet \<^verbatim>\<open>Execute\<close> returns the step's
  run-time error beside the result. A workflow with the timeout \<^verbatim>\<open>"abc"\<close> gets a nil
  WorkflowResult.
\<close>

theorem Execute_error_only_for_bad_graph_counterexample:
  "DependsOn (sample_step ''s1'' ''missing'') = []
   \<and> fst (fst (Execute sample_lib sample_engine (Caller ())
                 (sample_workflow [sample_step ''s1'' ''missing'']) st0)) \<noteq> None
   \<and> snd (fst (Execute sample_lib sample_engine (Caller ())
                 (sample_workflow [sample_step ''s1'' ''missing'']) st0))
        = Some (UnknownAction ''missing'')
   \<and> fst (Execute sample_lib sample_engine (Caller ())
            ((sample_workflow [sample_step ''s1'' ''noop''])\<lparr>wf_Timeout := ''abc''\<rparr>) st0)
        = (None, Some (InvalidTimeout (''time: invalid duration '' @ [CHR 0x22] @ ''abc'' @ [CHR 0x22])))"
  by (simp add: engine_defs sample_defs Let_def)

section \<open>Two runs of the same workflow\<close>

lemma erase_step_times_eq_iff:
  "erase_step_times a = erase_step_times b \<longleftrightarrow>
     StepID a = StepID b \<and> Status a = Status b \<and> Output a = Output b \<and> Error a = Error b"
  by (cases a, cases b) (simp add: erase_step_times_def)

lemma erase_times_eq_iff:
  "erase_times a = erase_times b \<longleftrightarrow>
     WorkflowName a = WorkflowName b \<and> wr_Status a = wr_Status b
     \<and> map (map_option erase_step_times) (wr_Steps a) = map (map_option erase_step_times) (wr_Steps b)
     \<and> wr_Error a = wr_Error b"
  by (cases a, cases b) (simp add: erase_times_def)

lemma deterministicD:
  assumes "deterministic e" and "actions e name = Some h"
  shows "fst (h c i w) = fst (h c' i w')"
  using assms(1) [unfolded deterministic_def, rule_format, OF assms(2)] .

lemma ExecuteStep_deterministic:
  assumes det: "deterministic e" and p: "ParseDuration lib' = ParseDuration lib"
  shows "map_option erase_step_times (fst (fst (ExecuteStep lib e ctx step inputs st)))
           = map_option erase_step_times (fst (fst (ExecuteStep lib' e ctx' step inputs st')))
         \<and> snd (fst (ExecuteStep lib e ctx step inputs st))
           = snd (fst (ExecuteStep lib' e ctx' step inputs st'))"
proof (cases rule: timeout_cases [of step lib])
  case (bad perr)
  from bad p have bad': "Timeout step \<noteq> []" "ParseDuration lib' (Timeout step) = Inl perr" by simp_all
  from ExecuteStep_bad_timeout [OF bad, of e ctx inputs st]
  obtain r where r: "ExecuteStep lib e ctx step inputs st =
            ((Some r, Some (InvalidTimeout perr)), snd (now lib (snd (now lib st))))"
    "StepID r = ID step" "Status r = StatusFailed" "Output r = None"
    "Error r = Some (InvalidTimeout perr)"
    by (elim exE conjE)
  from ExecuteStep_bad_timeout [OF bad', of e ctx' inputs st']
  obtain r' where r': "ExecuteStep lib' e ctx' step inputs st' =
            ((Some r', Some (InvalidTimeout perr)), snd (now lib' (snd (now lib' st'))))"
    "StepID r' = ID step" "Status r' = StatusFailed" "Output r' = None"
    "Error r' = Some (InvalidTimeout perr)"
    by (elim exE conjE)
  from r r' show ?thesis by (simp add: erase_step_times_eq_iff)
next
  case ok
  with p have ok': "valid_timeout lib' (Timeout step)" by (simp add: valid_timeout_def)
  show ?thesis
  proof (cases "actions e (Action step)")
    case None
    from ExecuteStep_unknown_action [OF ok None, of ctx inputs st]
    obtain r where r: "ExecuteStep lib e ctx step inputs st =
            ((Some r, Some (UnknownAction (Action step))), snd (now lib (snd (now lib st))))"
      "StepID r = ID step" "Status r = StatusFailed" "Output r = None"
      "Error r = Some (UnknownAction (Action step))"
      by (elim exE conjE)
    from ExecuteStep_unknown_action [OF ok' None, of ctx' inputs st']
    obtain r' where r': "ExecuteStep lib' e ctx' step inputs st' =
            ((Some r', Some (UnknownAction (Action step))), snd (now lib' (snd (now lib' st'))))"
      "StepID r' = ID step" "Status r' = StatusFailed" "Output r' = None"
      "Error r' = Some (UnknownAction (Action step))"
      by (elim exE conjE)
    from r r' show ?thesis by (simp add: erase_step_times_eq_iff)
  next
    case (Some h)
    obtain out err w1 where 1:
      "h (step_ctx lib ctx (Timeout step)) (merged_inputs step inputs) (world (snd (now lib st)))
         = ((out, err), w1)"
      by (metis surj_pair)
    obtain out' err' w2 where 2:
      "h (step_ctx lib' ctx' (Timeout step)) (merged_inputs step inputs) (world (snd (now lib' st')))
         = ((out', err'), w2)"
      by (metis surj_pair)
    note deterministicD [OF det Some, where c = "step_ctx lib ctx (Timeout step)" and i = "merged_inputs step inputs"
                  and w = "world (snd (now lib st))" and c' = "step_ctx lib' ctx' (Timeout step)"
                  and w' = "world (snd (now lib' st'))"]
    with 1 2 have same: "out' = out" "err' = err" by simp_all
    from ExecuteStep_invoked [OF ok Some 1]
    obtain r s where r: "ExecuteStep lib e ctx step inputs st = ((Some r, map_option ActionError err), s)"
      "StepID r = ID step" "Status r = (if err = None then StatusCompleted else StatusFailed)"
      "Output r = (if err = None then out else None)" "Error r = map_option ActionError err"
      by (elim exE conjE)
    from ExecuteStep_invoked [OF ok' Some 2 [unfolded same]]
    obtain r' s' where r': "ExecuteStep lib' e ctx' step inputs st' = ((Some r', map_option ActionError err), s')"
      "StepID r' = ID step" "Status r' = (if err = None then StatusCompleted else StatusFailed)"
      "Output r' = (if err = None then out else None)" "Error r' = map_option ActionError err"
      by (elim exE conjE)
    from r r' show ?thesis by (simp add: erase_step_times_eq_iff)
  qed
qed

lemma Execute_loop_deterministic:
  assumes det: "deterministic e" and p: "ParseDuration lib' = ParseDuration lib"
    and res: "erase_times result = erase_times result'"
  shows "map_option erase_times (fst (fst (Execute_loop lib e ctx result steps st)))
           = map_option erase_times (fst (fst (Execute_loop lib' e ctx' result' steps st')))
         \<and> snd (fst (Execute_loop lib e ctx result steps st))
           = snd (fst (Execute_loop lib' e ctx' result' steps st'))"
  using res
proof (induction steps arbitrary: result result' st st')
  case Nil
  then show ?case by (simp add: wr_stamp_eq erase_times_eq_iff)
next
  case (Cons step rest)
  obtain sr s1 where a: "ExecuteStep lib e ctx step None st = ((Some sr, Error sr), s1)"
    using ExecuteStep_outcome [of lib e ctx step None st] by blast
  obtain sr' s1' where b: "ExecuteStep lib' e ctx' step None st' = ((Some sr', Error sr'), s1')"
    using ExecuteStep_outcome [of lib' e ctx' step None st'] by blast
  from ExecuteStep_deterministic [OF det p, of ctx step None st ctx' st'] a b
  have same: "erase_step_times sr = erase_step_times sr'" "Error sr = Error sr'" by simp_all
  show ?case
  proof (cases "Error sr")
    case None
    with same have None': "Error sr' = None" by simp
    let ?r = "result\<lparr>wr_Steps := wr_Steps result @ [Some sr]\<rparr>"
    let ?r' = "result'\<lparr>wr_Steps := wr_Steps result' @ [Some sr']\<rparr>"
    have "erase_times ?r = erase_times ?r'"
      using Cons.prems same by (simp add: erase_times_eq_iff)
    from Cons.IH [OF this, of s1 s1']
    have ih: "map_option erase_times (fst (fst (Execute_loop lib e ctx ?r rest s1)))
           = map_option erase_times (fst (fst (Execute_loop lib' e ctx' ?r' rest s1')))
         \<and> snd (fst (Execute_loop lib e ctx ?r rest s1))
           = snd (fst (Execute_loop lib' e ctx' ?r' rest s1'))" .
    have l: "Execute_loop lib e ctx result (step # rest) st = Execute_loop lib e ctx ?r rest s1"
      using a None by simp
    have l': "Execute_loop lib' e ctx' result' (step # rest) st' = Execute_loop lib' e ctx' ?r' rest s1'"
      using b None' by simp
    from ih show ?thesis unfolding l l' .
  next
    case (Some er)
    with same have Some': "Error sr' = Some er" by simp
    have l: "Execute_loop lib e ctx result (step # rest) st =
     ((Some (result\<lparr>wr_Steps := wr_Steps result @ [Some sr], wr_Status := StatusFailed,
                    wr_Error := Some er, wr_EndTime := fst (now lib s1),
                    wr_Duration := Sub (fst (now lib s1)) (wr_StartTime result)\<rparr>), Some er),
      snd (now lib s1))"
      using a Some by (simp add: wr_stamp_eq)
    have l': "Execute_loop lib' e ctx' result' (step # rest) st' =
     ((Some (result'\<lparr>wr_Steps := wr_Steps result' @ [Some sr'], wr_Status := StatusFailed,
                    wr_Error := Some er, wr_EndTime := fst (now lib' s1'),
                    wr_Duration := Sub (fst (now lib' s1')) (wr_StartTime result')\<rparr>), Some er),
      snd (now lib' s1'))"
      using b Some' by (simp add: wr_stamp_eq)
    show ?thesis
      unfolding l l' using Cons.prems same by (simp add: erase_times_eq_iff)
  qed
qed

text \<open>
  Claim C9. For every workflow and every pair of runs of \<^verbatim>\<open>Execute\<close> on the same
  Workflow value with the same deterministic action handlers, the two WorkflowResults
  are identical in every status and output field, timestamps and durations excepted,
  and so are the returned errors. The two runs may read different clocks, start in
  different worlds and be given different contexts.
\<close>

theorem Execute_deterministic:
  assumes "deterministic e" and "ParseDuration lib' = ParseDuration lib"
  shows "map_option erase_times (fst (fst (Execute lib e ctx w st)))
           = map_option erase_times (fst (fst (Execute lib' e ctx' w st')))
         \<and> snd (fst (Execute lib e ctx w st)) = snd (fst (Execute lib' e ctx' w st'))"
proof (cases rule: wf_timeout_cases [of w lib])
  case (bad perr)
  from bad assms(2) have bad': "wf_Timeout w \<noteq> []" "ParseDuration lib' (wf_Timeout w) = Inl perr"
    by simp_all
  show ?thesis
    by (simp add: Execute_bad_timeout [OF bad] Execute_bad_timeout [OF bad'])
next
  case ok
  with assms(2) have ok': "valid_timeout lib' (wf_Timeout w)" by (simp add: valid_timeout_def)
  show ?thesis
    unfolding Execute_eq [OF ok] Execute_eq [OF ok']
    by (rule Execute_loop_deterministic [OF assms]) (simp add: erase_times_eq_iff)
qed

theorem Execute_deterministic_witness:
  "deterministic pure_engine
   \<and> ParseDuration late_lib = ParseDuration sample_lib
   \<and> map_option erase_times
        (fst (fst (Execute sample_lib pure_engine (Caller ())
                     (sample_workflow [sample_step ''s1'' ''noop'', sample_step ''s2'' ''missing'']) st0)))
       = map_option erase_times
        (fst (fst (Execute late_lib pure_engine (WithTimeout (Caller ()) 5)
                     (sample_workflow [sample_step ''s1'' ''noop'', sample_step ''s2'' ''missing'']) st1)))
   \<and> map_option wr_StartTime
        (fst (fst (Execute sample_lib pure_engine (Caller ())
                     (sample_workflow [sample_step ''s1'' ''noop'', sample_step ''s2'' ''missing'']) st0)))
       \<noteq> map_option wr_StartTime
        (fst (fst (Execute late_lib pure_engine (WithTimeout (Caller ()) 5)
                     (sample_workflow [sample_step ''s1'' ''noop'', sample_step ''s2'' ''missing'']) st1)))"
proof -
  have d: "deterministic pure_engine"
    by (auto simp: deterministic_def pure_engine_def echo_def noop_def split: if_splits)
  have p: "ParseDuration late_lib = ParseDuration sample_lib"
    by (simp add: late_lib_def sample_lib_def)
  have t: "map_option wr_StartTime
        (fst (fst (Execute sample_lib pure_engine (Caller ())
                     (sample_workflow [sample_step ''s1'' ''noop'', sample_step ''s2'' ''missing'']) st0)))
       \<noteq> map_option wr_StartTime
        (fst (fst (Execute late_lib pure_engine (WithTimeout (Caller ()) 5)
                     (sample_workflow [sample_step ''s1'' ''noop'', sample_step ''s2'' ''missing'']) st1)))"
    by (simp add: engine_defs sample_defs Let_def)
  from Execute_deterministic [OF d p, of "Caller ()"
         "sample_workflow [sample_step ''s1'' ''noop'', sample_step ''s2'' ''missing'']" st0
         "WithTimeout (Caller ()) 5" st1]
  have "map_option erase_times
        (fst (fst (Execute sample_lib pure_engine (Caller ())
                     (sample_workflow [sample_step ''s1'' ''noop'', sample_step ''s2'' ''missing'']) st0)))
       = map_option erase_times
        (fst (fst (Execute late_lib pure_engine (WithTimeout (Caller ()) 5)
                     (sample_workflow [sample_step ''s1'' ''noop'', sample_step ''s2'' ''missing'']) st1)))"
    by (rule conjunct1)
  with d p t show ?thesis
    apply -
    apply (intro conjI; assumption)
    done
qed

end
